theory Spec2Isabelle
  imports Complex_Main "HOL-Library.Multiset" "HOL-Library.Char_ord" "HOL-Library.List_Lexorder"
    "HOL-Library.Product_Lexorder"
begin

section \<open>Python values\<close>

text \<open>
  The engine works on lists of dictionaries whose values are dynamically typed. The
  values that reach it are \<^verbatim>\<open>None\<close>, strings, numbers and \<^verbatim>\<open>datetime\<close> objects.
  A number is the rational it denotes (a finite float denotes one), so comparing numbers
  is exact; NaN is not a value of an amount. The two infinities appear because the
  engine's sort key creates them with \<^verbatim>\<open>float('inf')\<close>. Float arithmetic rounds:
  \<open>moving_average\<close>, \<open>calculate_trends\<close> and the grouped sums take its operations as a
  parameter (see \<open>arith\<close> below); the basic statistics and the monthly sums are written
  with exact operations, \<open>execute_query\<close> builds its bundle with the exact operations,
  and these are evaluated only on amounts on which float arithmetic is exact. Strings are lists of 8-bit characters, so the text functions below are those
  of ASCII text. A \<^verbatim>\<open>datetime\<close> is year, month, day and the microseconds since midnight.
\<close>

datatype error =
  TypeError | ValueError | AttributeError | ZeroDivisionError | StatisticsError | RecursionError

type_synonym datetime = "nat \<times> nat \<times> nat \<times> nat"

datatype pyval = PNone | PStr string | PNum rat | PosInf | NegInf | PDatetime datetime

text \<open>Truthiness, as \<^verbatim>\<open>if v:\<close> and \<^verbatim>\<open>v or d\<close> test it.\<close>

fun truthy :: "pyval \<Rightarrow> bool" where
  "truthy PNone = False"
| "truthy (PStr s) = (s \<noteq> [])"
| "truthy (PNum x) = (x \<noteq> 0)"
| "truthy PosInf = True"
| "truthy NegInf = True"
| "truthy (PDatetime d) = True"

definition py_or :: "pyval \<Rightarrow> pyval \<Rightarrow> pyval" where
  "py_or v d = (if truthy v then v else d)"

subsection \<open>Ordering comparisons\<close>

text \<open>
  \<^verbatim>\<open>a < b\<close> is defined between two strings (by code point), two numbers, and two
  datetimes; every other pairing raises \<^verbatim>\<open>TypeError\<close>. \<open>cmp_class\<close> names the three
  families, and \<open>rank\<close> embeds each family into one totally ordered type, on which the
  order within a family is Python's.
\<close>

fun cmp_class :: "pyval \<Rightarrow> nat" where
  "cmp_class PNone = 0"
| "cmp_class (PStr s) = 1"
| "cmp_class (PNum x) = 2"
| "cmp_class PosInf = 2"
| "cmp_class NegInf = 2"
| "cmp_class (PDatetime d) = 3"

type_synonym ordkey = "nat \<times> string \<times> (int \<times> rat) \<times> datetime"

fun rank :: "pyval \<Rightarrow> ordkey" where
  "rank PNone = (0, [], (0, 0), (0, 0, 0, 0))"
| "rank (PStr s) = (1, s, (0, 0), (0, 0, 0, 0))"
| "rank (PNum x) = (2, [], (0, x), (0, 0, 0, 0))"
| "rank PosInf = (2, [], (1, 0), (0, 0, 0, 0))"
| "rank NegInf = (2, [], (- 1, 0), (0, 0, 0, 0))"
| "rank (PDatetime d) = (3, [], (0, 0), d)"

definition py_lt :: "pyval \<Rightarrow> pyval \<Rightarrow> error + bool" where
  "py_lt a b =
     (if cmp_class a = cmp_class b \<and> cmp_class a \<noteq> 0 then Inr (rank a < rank b)
      else Inl TypeError)"

definition py_gt :: "pyval \<Rightarrow> pyval \<Rightarrow> error + bool" where
  "py_gt a b = py_lt b a"

subsection \<open>Loops that may raise\<close>

fun map_err :: "('a \<Rightarrow> error + 'b) \<Rightarrow> 'a list \<Rightarrow> error + 'b list" where
  "map_err f [] = Inr []"
| "map_err f (x # xs) =
     (case f x of
        Inl e \<Rightarrow> Inl e
      | Inr y \<Rightarrow> (case map_err f xs of Inl e \<Rightarrow> Inl e | Inr ys \<Rightarrow> Inr (y # ys)))"

fun filter_err :: "('a \<Rightarrow> error + bool) \<Rightarrow> 'a list \<Rightarrow> error + 'a list" where
  "filter_err p [] = Inr []"
| "filter_err p (x # xs) =
     (case p x of
        Inl e \<Rightarrow> Inl e
      | Inr b \<Rightarrow> (case filter_err p xs of Inl e \<Rightarrow> Inl e | Inr ys \<Rightarrow> Inr (if b then x # ys else ys)))"

subsection \<open>The builtin sorted\<close>

text \<open>
  \<^verbatim>\<open>sorted(xs, key=f, reverse=r)\<close> is stable, and with \<^verbatim>\<open>reverse=True\<close> it still keeps
  elements of equal key in their original order (the list is reversed, sorted and
  reversed again). The keys are computed first, and an exception of the key function
  ends the call. A sort of two or more elements compares keys, so it raises
  \<^verbatim>\<open>TypeError\<close> unless all keys belong to one family.
\<close>

definition sorted_total :: "('a \<Rightarrow> 'k::linorder) \<Rightarrow> bool \<Rightarrow> 'a list \<Rightarrow> 'a list" where
  "sorted_total key_func reverse xs =
     (if reverse then rev (sort_key key_func (rev xs)) else sort_key key_func xs)"

fun comparable :: "pyval list \<Rightarrow> bool" where
  "comparable [] = True"
| "comparable [k] = True"
| "comparable (k # ks) = (cmp_class k \<noteq> 0 \<and> list_all (\<lambda>k'. cmp_class k' = cmp_class k) ks)"

fun key_val :: "error + pyval \<Rightarrow> pyval" where
  "key_val (Inr v) = v"
| "key_val (Inl e) = PNone"

definition py_sorted :: "('a \<Rightarrow> error + pyval) \<Rightarrow> bool \<Rightarrow> 'a list \<Rightarrow> error + 'a list" where
  "py_sorted key_func reverse xs =
     (case map_err key_func xs of
        Inl e \<Rightarrow> Inl e
      | Inr keys \<Rightarrow>
          if comparable keys
          then Inr (sorted_total (\<lambda>x. rank (key_val (key_func x))) reverse xs)
          else Inl TypeError)"

subsection \<open>Text\<close>

definition lower_char :: "char \<Rightarrow> char" where
  "lower_char c =
     (if 65 \<le> (of_char c :: nat) \<and> (of_char c :: nat) \<le> 90
      then char_of ((of_char c :: nat) + 32) else c)"

definition lower :: "string \<Rightarrow> string" where
  "lower s = map lower_char s"

fun starts_with :: "string \<Rightarrow> string \<Rightarrow> bool" where
  "starts_with hay [] = True"
| "starts_with [] (n # ns) = False"
| "starts_with (h # hs) (n # ns) = (h = n \<and> starts_with hs ns)"

text \<open>\<^verbatim>\<open>needle in hay\<close>, which is also \<^verbatim>\<open>hay.find(needle) != -1\<close>.\<close>

fun contains :: "string \<Rightarrow> string \<Rightarrow> bool" where
  "contains [] needle = (needle = [])"
| "contains (h # hs) needle = (starts_with (h # hs) needle \<or> contains hs needle)"

definition is_digit :: "char \<Rightarrow> bool" where
  "is_digit c = (48 \<le> (of_char c :: nat) \<and> (of_char c :: nat) \<le> 57)"

definition digit_val :: "char \<Rightarrow> nat" where
  "digit_val c = of_char c - 48"

definition digit_char :: "nat \<Rightarrow> char" where
  "digit_char n = char_of (48 + n mod 10)"

subsection \<open>Dates\<close>

text \<open>
  \<^verbatim>\<open>re.match(r'\d{4}-\d{2}-\d{2}', value)\<close> tests a prefix of ten characters.
\<close>

fun date_pattern :: "string \<Rightarrow> bool" where
  "date_pattern (y1 # y2 # y3 # y4 # s1 # m1 # m2 # s2 # d1 # d2 # rest) =
     (is_digit y1 \<and> is_digit y2 \<and> is_digit y3 \<and> is_digit y4 \<and> s1 = CHR ''-'' \<and>
      is_digit m1 \<and> is_digit m2 \<and> s2 = CHR ''-'' \<and> is_digit d1 \<and> is_digit d2)"
| "date_pattern s = False"

definition leap_year :: "nat \<Rightarrow> bool" where
  "leap_year y = (y mod 4 = 0 \<and> (y mod 100 \<noteq> 0 \<or> y mod 400 = 0))"

definition days_in_month :: "nat \<Rightarrow> nat \<Rightarrow> nat" where
  "days_in_month y m =
     (if m = 2 then (if leap_year y then 29 else 28)
      else if m = 4 \<or> m = 6 \<or> m = 9 \<or> m = 11 then 30 else 31)"

definition valid_date :: "nat \<Rightarrow> nat \<Rightarrow> nat \<Rightarrow> bool" where
  "valid_date y m d = (1 \<le> y \<and> y \<le> 9999 \<and> 1 \<le> m \<and> m \<le> 12 \<and> 1 \<le> d \<and> d \<le> days_in_month y m)"

text \<open>
  \<^verbatim>\<open>datetime.strptime(s, '%Y-%m-%d')\<close>. The directive \<^verbatim>\<open>%Y\<close> takes four digits;
  \<^verbatim>\<open>%m\<close> takes \<^verbatim>\<open>1[0-2]\<close>, \<^verbatim>\<open>0[1-9]\<close> or \<^verbatim>\<open>[1-9]\<close>; \<^verbatim>\<open>%d\<close> takes \<^verbatim>\<open>3[0-1]\<close>,
  \<^verbatim>\<open>[1-2]\d\<close>, \<^verbatim>\<open>0[1-9]\<close>, \<^verbatim>\<open>[1-9]\<close> or a space and \<^verbatim>\<open>[1-9]\<close>; the whole string must be
  consumed and the date must exist, otherwise \<^verbatim>\<open>ValueError\<close> is raised (the value
  \<open>None\<close> here).
\<close>

fun parse_day :: "string \<Rightarrow> nat option" where
  "parse_day [a, b] =
     (if a = CHR ''3'' \<and> (b = CHR ''0'' \<or> b = CHR ''1'') then Some (30 + digit_val b)
      else if (a = CHR ''1'' \<or> a = CHR ''2'') \<and> is_digit b then Some (10 * digit_val a + digit_val b)
      else if a = CHR ''0'' \<and> is_digit b \<and> b \<noteq> CHR ''0'' then Some (digit_val b)
      else if a = CHR '' '' \<and> is_digit b \<and> b \<noteq> CHR ''0'' then Some (digit_val b)
      else None)"
| "parse_day [a] = (if is_digit a \<and> a \<noteq> CHR ''0'' then Some (digit_val a) else None)"
| "parse_day s = None"

fun parse_month_day :: "string \<Rightarrow> (nat \<times> nat) option" where
  "parse_month_day (a # b # c # rest) =
     (if c = CHR ''-'' \<and> a = CHR ''1'' \<and> (b = CHR ''0'' \<or> b = CHR ''1'' \<or> b = CHR ''2'')
      then map_option (Pair (10 + digit_val b)) (parse_day rest)
      else if c = CHR ''-'' \<and> a = CHR ''0'' \<and> is_digit b \<and> b \<noteq> CHR ''0''
      then map_option (Pair (digit_val b)) (parse_day rest)
      else if b = CHR ''-'' \<and> is_digit a \<and> a \<noteq> CHR ''0''
      then map_option (Pair (digit_val a)) (parse_day (c # rest))
      else None)"
| "parse_month_day s = None"

fun strptime :: "string \<Rightarrow> datetime option" where
  "strptime (y1 # y2 # y3 # y4 # s1 # rest) =
     (if is_digit y1 \<and> is_digit y2 \<and> is_digit y3 \<and> is_digit y4 \<and> s1 = CHR ''-''
      then (case parse_month_day rest of
              None \<Rightarrow> None
            | Some (m, d) \<Rightarrow>
                (let y = 1000 * digit_val y1 + 100 * digit_val y2 + 10 * digit_val y3 + digit_val y4
                 in if valid_date y m d then Some (y, m, d, 0) else None))
      else None)"
| "strptime s = None"

definition datetime_min :: datetime where
  "datetime_min = (1, 1, 1, 0)"

subsection \<open>Rounding to two decimals\<close>

text \<open>\<^verbatim>\<open>round(x, 2)\<close>: to the nearest hundredth, a tie going to the even one.\<close>

definition round_half_even :: "rat \<Rightarrow> int" where
  "round_half_even y =
     (let f = \<lfloor>y\<rfloor>; d = y - of_int f
      in if d < 1 / 2 then f else if 1 / 2 < d then f + 1 else if even f then f else f + 1)"

definition round2 :: "rat \<Rightarrow> rat" where
  "round2 x = of_int (round_half_even (x * 100)) / 100"

subsection \<open>Float arithmetic\<close>

text \<open>
  A finite float is the rational number it denotes, so a float value is a \<open>rat\<close> and
  comparing floats is comparing rationals. Arithmetic on floats rounds: the sum of a list
  (\<^verbatim>\<open>sum\<close>), \<^verbatim>\<open>+\<close>, \<^verbatim>\<open>-\<close>, \<^verbatim>\<open>*\<close>, \<^verbatim>\<open>/\<close> and \<^verbatim>\<open>round(x, 2)\<close> each return the float the
  interpreter computes, which need not be the exact result. \<open>moving_average\<close>,
  \<open>calculate_trends\<close> and the grouped sums take these operations as a parameter, and what
  is proved of them holds for every choice of the operations; nothing is assumed about
  rounding. An
  integer operand (\<^verbatim>\<open>window_size\<close>, \<^verbatim>\<open>len(...)\<close>, \<^verbatim>\<open>100\<close>) is converted to the float of the
  same value.
\<close>

record arith =
  fsum :: "rat list \<Rightarrow> rat"
  fadd :: "rat \<Rightarrow> rat \<Rightarrow> rat"
  fsub :: "rat \<Rightarrow> rat \<Rightarrow> rat"
  fmul :: "rat \<Rightarrow> rat \<Rightarrow> rat"
  fdiv :: "rat \<Rightarrow> rat \<Rightarrow> rat"
  fround2 :: "rat \<Rightarrow> rat"

text \<open>
  The operations without rounding error. Binary floating point agrees with them where
  the exact result is a float; the examples are evaluated with them on such inputs.
\<close>

definition exact_arith :: arith where
  "exact_arith =
     \<lparr>fsum = sum_list, fadd = (\<lambda>a b. a + b), fsub = (\<lambda>a b. a - b), fmul = (\<lambda>a b. a * b), fdiv = (\<lambda>a b. a / b),
      fround2 = round2\<rparr>"

section \<open>Records\<close>

text \<open>
  A receipt is a dictionary with the columns of the \<^verbatim>\<open>receipts\<close> table. A key may be
  absent from the dictionary, present with the value \<^verbatim>\<open>None\<close>, or present with a value
  of the column's type; \<^verbatim>\<open>item.get(k)\<close> does not tell the first two apart, while
  \<^verbatim>\<open>item.get(k, default)\<close> does.
\<close>

datatype 'a field = Absent | Null | Val 'a

record receipt =
  r_id :: "int field"
  file_name :: "string field"
  vendor :: "string field"
  date :: "string field"
  amount :: "rat field"
  category :: "string field"
  description :: "string field"
  upload_date :: "datetime field"
  file_type :: "string field"
  file_size :: "int field"
  status :: "string field"
  extracted_text :: "string field"
  confidence_score :: "rat field"

fun entry :: "('a \<Rightarrow> pyval) \<Rightarrow> 'a field \<Rightarrow> pyval option" where
  "entry c Absent = None"
| "entry c Null = Some PNone"
| "entry c (Val x) = Some (c x)"

definition lookup :: "receipt \<Rightarrow> string \<Rightarrow> pyval option" where
  "lookup item k =
     (if k = ''id'' then entry (\<lambda>n. PNum (of_int n)) (r_id item)
      else if k = ''file_name'' then entry PStr (file_name item)
      else if k = ''vendor'' then entry PStr (vendor item)
      else if k = ''date'' then entry PStr (date item)
      else if k = ''amount'' then entry PNum (amount item)
      else if k = ''category'' then entry PStr (category item)
      else if k = ''description'' then entry PStr (description item)
      else if k = ''upload_date'' then entry PDatetime (upload_date item)
      else if k = ''file_type'' then entry PStr (file_type item)
      else if k = ''file_size'' then entry (\<lambda>n. PNum (of_int n)) (file_size item)
      else if k = ''status'' then entry PStr (status item)
      else if k = ''extracted_text'' then entry PStr (extracted_text item)
      else if k = ''confidence_score'' then entry PNum (confidence_score item)
      else None)"

text \<open>\<^verbatim>\<open>item.get(k)\<close> and \<^verbatim>\<open>item.get(k, d)\<close>.\<close>

definition get :: "receipt \<Rightarrow> string \<Rightarrow> pyval" where
  "get item k = (case lookup item k of None \<Rightarrow> PNone | Some v \<Rightarrow> v)"

definition get_default :: "receipt \<Rightarrow> string \<Rightarrow> pyval \<Rightarrow> pyval" where
  "get_default item k d = (case lookup item k of None \<Rightarrow> d | Some v \<Rightarrow> v)"

section \<open>Search (SearchAlgorithms)\<close>

text \<open>
  \<^verbatim>\<open>str(v)\<close> for the values a text column holds: a string is itself and \<^verbatim>\<open>None\<close> is
  the text \<^verbatim>\<open>None\<close>. The decimal text of a number or a datetime is not modelled; the
  engine searches the four text columns only, and for any other value \<open>py_str\<close> is
  \<open>None\<close> and the field does not match.
\<close>

fun py_str :: "pyval \<Rightarrow> string option" where
  "py_str PNone = Some ''None''"
| "py_str (PStr s) = Some s"
| "py_str v = None"

text \<open>
  \<^verbatim>\<open>keyword_search\<close>: an item is appended once, at the first field whose lowered text
  contains the lowered keyword.
\<close>

definition field_matches :: "string \<Rightarrow> receipt \<Rightarrow> string \<Rightarrow> bool" where
  "field_matches keyword_lower item k =
     (case py_str (get_default item k (PStr [])) of
        None \<Rightarrow> False
      | Some field_value \<Rightarrow> contains (lower field_value) keyword_lower)"

definition keyword_search :: "receipt list \<Rightarrow> string \<Rightarrow> string list \<Rightarrow> receipt list" where
  "keyword_search data keyword search_fields =
     filter (\<lambda>item. list_ex (field_matches (lower keyword) item) search_fields) data"

text \<open>
  \<^verbatim>\<open>range_search\<close>. The loop carries \<^verbatim>\<open>min_val\<close> and \<^verbatim>\<open>max_val\<close>: inside the \<^verbatim>\<open>try\<close>
  a truthy string bound is replaced by its parsed datetime, and the replacement stays
  in force for the items that follow. \<open>convert_bound\<close> is one such assignment; it is
  \<open>None\<close> when \<^verbatim>\<open>strptime\<close> raises \<^verbatim>\<open>ValueError\<close>.
\<close>

fun convert_bound :: "pyval \<Rightarrow> pyval option" where
  "convert_bound (PStr s) =
     (if s = [] then Some (PStr s) else map_option PDatetime (strptime s))"
| "convert_bound v = Some v"

text \<open>
  The range test after the \<^verbatim>\<open>try\<close>: \<open>Inr True\<close> keeps the item, \<open>Inr False\<close> is a
  \<^verbatim>\<open>continue\<close>, and a comparison between unlike values raises.
\<close>

definition in_range :: "pyval \<Rightarrow> pyval \<Rightarrow> pyval \<Rightarrow> error + bool" where
  "in_range v min_val max_val =
     (case (if min_val = PNone then Inr False else py_lt v min_val) of
        Inl e \<Rightarrow> Inl e
      | Inr True \<Rightarrow> Inr False
      | Inr False \<Rightarrow>
          (case (if max_val = PNone then Inr False else py_gt v max_val) of
             Inl e \<Rightarrow> Inl e
           | Inr True \<Rightarrow> Inr False
           | Inr False \<Rightarrow> Inr True))"

text \<open>
  One pass of the loop body: the bounds as it leaves them, and whether the item is
  appended. Every \<^verbatim>\<open>continue\<close> is a pass that appends nothing.
\<close>

definition range_step :: "string \<Rightarrow> pyval \<Rightarrow> pyval \<Rightarrow> receipt \<Rightarrow> error + (pyval \<times> pyval \<times> bool)" where
  "range_step k min_val max_val item =
     (case get item k of
        PNone \<Rightarrow> Inr (min_val, max_val, False)
      | PStr s \<Rightarrow>
          (if date_pattern s then
             (case strptime s of
                None \<Rightarrow> Inr (min_val, max_val, False)
              | Some d \<Rightarrow>
                  (case convert_bound min_val of
                     None \<Rightarrow> Inr (min_val, max_val, False)
                   | Some min_val' \<Rightarrow>
                       (case convert_bound max_val of
                          None \<Rightarrow> Inr (min_val', max_val, False)
                        | Some max_val' \<Rightarrow>
                            (case in_range (PDatetime d) min_val' max_val' of
                               Inl e \<Rightarrow> Inl e
                             | Inr keep \<Rightarrow> Inr (min_val', max_val', keep)))))
           else
             (case in_range (PStr s) min_val max_val of
                Inl e \<Rightarrow> Inl e
              | Inr keep \<Rightarrow> Inr (min_val, max_val, keep)))
      | v \<Rightarrow>
          (case in_range v min_val max_val of
             Inl e \<Rightarrow> Inl e
           | Inr keep \<Rightarrow> Inr (min_val, max_val, keep)))"

text \<open>
  The loop. \<open>results\<close> holds the items appended so far; an exception discards it.
\<close>

fun range_loop :: "string \<Rightarrow> pyval \<Rightarrow> pyval \<Rightarrow> receipt list \<Rightarrow> receipt list \<Rightarrow> error + receipt list" where
  "range_loop k min_val max_val results [] = Inr results"
| "range_loop k min_val max_val results (item # data) =
     (case range_step k min_val max_val item of
        Inl e \<Rightarrow> Inl e
      | Inr (min_val', max_val', keep) \<Rightarrow>
          range_loop k min_val' max_val' (if keep then results @ [item] else results) data)"

definition range_search :: "receipt list \<Rightarrow> string \<Rightarrow> pyval \<Rightarrow> pyval \<Rightarrow> error + receipt list" where
  "range_search data k min_val max_val = range_loop k min_val max_val [] data"

section \<open>The partition-based sort (SortingAlgorithms.quicksort)\<close>

text \<open>
  \<^verbatim>\<open>quicksort\<close> compares keys with \<^verbatim>\<open><\<close>, \<^verbatim>\<open>==\<close> and \<^verbatim>\<open>>\<close>, whatever the key function
  returns; the three comparisons of a key type are a parameter of the embedding. On a
  totally ordered type they are \<open>total_order\<close>. On floats they are \<open>float_order\<close>, where
  \<open>None\<close> stands for NaN, which is neither below, equal to nor above any float, itself
  included.
\<close>

record 'k comparison =
  cmp_lt :: "'k \<Rightarrow> 'k \<Rightarrow> bool"
  cmp_eq :: "'k \<Rightarrow> 'k \<Rightarrow> bool"
  cmp_gt :: "'k \<Rightarrow> 'k \<Rightarrow> bool"

definition total_order :: "'k::linorder comparison" where
  "total_order = \<lparr>cmp_lt = (\<lambda>a b. a < b), cmp_eq = (\<lambda>a b. a = b), cmp_gt = (\<lambda>a b. b < a)\<rparr>"

fun both :: "(rat \<Rightarrow> rat \<Rightarrow> bool) \<Rightarrow> rat option \<Rightarrow> rat option \<Rightarrow> bool" where
  "both p (Some x) (Some y) = p x y"
| "both p a b = False"

definition float_order :: "rat option comparison" where
  "float_order =
     \<lparr>cmp_lt = both (\<lambda>x y. x < y), cmp_eq = both (\<lambda>x y. x = y), cmp_gt = both (\<lambda>x y. y < x)\<rparr>"

text \<open>
  \<^verbatim>\<open>quicksort(arr, key_func)\<close> returns \<^verbatim>\<open>arr\<close> itself when it has at most one element.
  Otherwise the pivot is \<^verbatim>\<open>arr[len(arr) // 2]\<close>, three list comprehensions select the
  elements whose key is below, equal to and above the pivot's key, and the result is the
  sorted lower part, then the middle part, then the sorted upper part. An element whose
  key is in none of the three relations to the pivot's key is in none of the three lists.

  The function calls itself, and the interpreter raises \<^verbatim>\<open>RecursionError\<close> when the call
  stack is exhausted: \<open>depth\<close> is the number of nested calls of \<^verbatim>\<open>quicksort\<close> that the
  stack still admits when the call is made (fewer than the interpreter's recursion limit,
  1000 unless it has been changed).
\<close>

fun quicksort :: "nat \<Rightarrow> 'k comparison \<Rightarrow> ('a \<Rightarrow> 'k) \<Rightarrow> 'a list \<Rightarrow> error + 'a list" where
  "quicksort 0 cmp key_func arr = Inl RecursionError"
| "quicksort (Suc depth) cmp key_func arr =
     (if length arr \<le> 1 then Inr arr
      else
        let pivot = arr ! (length arr div 2);
            pivot_key = key_func pivot;
            left = [x \<leftarrow> arr. cmp_lt cmp (key_func x) pivot_key];
            middle = [x \<leftarrow> arr. cmp_eq cmp (key_func x) pivot_key];
            right = [x \<leftarrow> arr. cmp_gt cmp (key_func x) pivot_key]
        in case quicksort depth cmp key_func left of
             Inl e \<Rightarrow> Inl e
           | Inr sorted_left \<Rightarrow>
               (case quicksort depth cmp key_func right of
                  Inl e \<Rightarrow> Inl e
                | Inr sorted_right \<Rightarrow> Inr (sorted_left @ middle @ sorted_right)))"

text \<open>\<^verbatim>\<open>key_func = None\<close> stands for the identity.\<close>

definition quicksort_default :: "nat \<Rightarrow> 'k comparison \<Rightarrow> 'k list \<Rightarrow> error + 'k list" where
  "quicksort_default depth cmp arr = quicksort depth cmp (\<lambda>x. x) arr"

text \<open>
  The list object passed as \<^verbatim>\<open>arr\<close> after the call, together with the outcome of the
  call. The source has no assignment to \<^verbatim>\<open>arr\<close>, to an element of it or to a slice of it,
  and calls no method of it: it reads \<^verbatim>\<open>len(arr)\<close> and \<^verbatim>\<open>arr[len(arr) // 2]\<close> and iterates
  over it, and every list it builds is a fresh comprehension or concatenation.
\<close>

definition quicksort_call ::
  "nat \<Rightarrow> 'k comparison \<Rightarrow> ('a \<Rightarrow> 'k) \<Rightarrow> 'a list \<Rightarrow> 'a list \<times> (error + 'a list)" where
  "quicksort_call depth cmp key_func arr = (arr, quicksort depth cmp key_func arr)"

section \<open>Aggregation (AggregationAlgorithms)\<close>

subsection \<open>The statistics module\<close>

text \<open>
  \<^verbatim>\<open>statistics.mean\<close> and \<^verbatim>\<open>statistics.median\<close> raise \<^verbatim>\<open>StatisticsError\<close> on empty
  data. \<^verbatim>\<open>statistics.mode\<close> is \<^verbatim>\<open>Counter(data).most_common(1)[0][0]\<close>: a
  \<^verbatim>\<open>Counter\<close> keeps its keys in the order they were first seen, and \<^verbatim>\<open>most_common(1)\<close>
  takes the first entry of greatest count, so of several values that share the greatest
  count the one met first is returned; only empty data raises. This is the module of
  Python 3.8 and later. (Before 3.8, \<^verbatim>\<open>mode\<close> raised on data with more than one most
  frequent value.)
\<close>

definition statistics_mean :: "rat list \<Rightarrow> error + rat" where
  "statistics_mean xs = (if xs = [] then Inl StatisticsError else Inr (sum_list xs / of_nat (length xs)))"

definition statistics_median :: "rat list \<Rightarrow> error + rat" where
  "statistics_median xs =
     (let data = sort xs; n = length data
      in if n = 0 then Inl StatisticsError
         else if n mod 2 = 1 then Inr (data ! (n div 2))
         else Inr ((data ! (n div 2 - 1) + data ! (n div 2)) / 2))"

fun counter_add :: "'a \<Rightarrow> ('a \<times> nat) list \<Rightarrow> ('a \<times> nat) list" where
  "counter_add x [] = [(x, 1)]"
| "counter_add x ((y, n) # cs) =
     (if x = y then (y, n + 1) # cs else (y, n) # counter_add x cs)"

definition counter :: "'a list \<Rightarrow> ('a \<times> nat) list" where
  "counter xs = fold counter_add xs []"

fun first_max :: "'a \<times> nat \<Rightarrow> ('a \<times> nat) list \<Rightarrow> 'a \<times> nat" where
  "first_max best [] = best"
| "first_max best (p # ps) = first_max (if snd best < snd p then p else best) ps"

definition statistics_mode :: "'a list \<Rightarrow> error + 'a" where
  "statistics_mode xs =
     (case counter xs of [] \<Rightarrow> Inl StatisticsError | p # ps \<Rightarrow> Inr (fst (first_max p ps)))"

subsection \<open>calculate_basic_stats\<close>

record stats =
  s_sum :: rat
  s_mean :: rat
  s_median :: rat
  s_mode :: rat

text \<open>
  The \<^verbatim>\<open>try\<close> around \<^verbatim>\<open>statistics.mode\<close> replaces a \<^verbatim>\<open>StatisticsError\<close> by the median;
  an exception of \<^verbatim>\<open>mean\<close> or \<^verbatim>\<open>median\<close> is not caught.
\<close>

definition calculate_basic_stats :: "rat list \<Rightarrow> error + stats" where
  "calculate_basic_stats amounts =
     (if amounts = [] then Inr \<lparr>s_sum = 0, s_mean = 0, s_median = 0, s_mode = 0\<rparr>
      else
        (case statistics_mean amounts of
           Inl e \<Rightarrow> Inl e
         | Inr mean_val \<Rightarrow>
             (case statistics_median amounts of
                Inl e \<Rightarrow> Inl e
              | Inr median_val \<Rightarrow>
                  (let mode_val =
                         (case statistics_mode (map round2 amounts) of
                            Inr m \<Rightarrow> m
                          | Inl e \<Rightarrow> median_val)
                   in Inr \<lparr>s_sum = round2 (sum_list amounts), s_mean = round2 mean_val,
                            s_median = round2 median_val, s_mode = round2 mode_val\<rparr>))))"

subsection \<open>Grouped sums\<close>

text \<open>
  \<^verbatim>\<open>receipt.get('amount', 0) or 0\<close>, then \<^verbatim>\<open>float(...)\<close>: the amount, and zero when the
  key is absent, \<^verbatim>\<open>None\<close> or zero.
\<close>

definition amount_or_zero :: "receipt \<Rightarrow> rat" where
  "amount_or_zero r = (case amount r of Val x \<Rightarrow> x | Null \<Rightarrow> 0 | Absent \<Rightarrow> 0)"

text \<open>
  A \<^verbatim>\<open>defaultdict\<close> of count and total, as the list of its entries in insertion order.
  The first access of a key appends the default entry with count 0 and the integer total
  0, and both updates follow: the integer 0 plus an amount is that amount. Every later
  \<^verbatim>\<open>+=\<close> on the total is a float addition.
\<close>

fun add_to_group ::
  "arith \<Rightarrow> 'k \<Rightarrow> rat \<Rightarrow> ('k \<times> nat \<times> rat) list \<Rightarrow> ('k \<times> nat \<times> rat) list" where
  "add_to_group ar k a [] = [(k, 0 + 1, a)]"
| "add_to_group ar k a ((k', c, t) # gs) =
     (if k = k' then (k', c + 1, fadd ar t a) # gs else (k', c, t) # add_to_group ar k a gs)"

definition vendor_of :: "receipt \<Rightarrow> pyval" where
  "vendor_of r = get_default r ''vendor'' (PStr ''Unknown'')"

definition category_of :: "receipt \<Rightarrow> pyval" where
  "category_of r = get_default r ''category'' (PStr ''Uncategorized'')"

definition group_by ::
  "arith \<Rightarrow> (receipt \<Rightarrow> 'k) \<Rightarrow> receipt list \<Rightarrow> ('k \<times> nat \<times> rat) list" where
  "group_by ar key_of receipts =
     fold (\<lambda>r. add_to_group ar (key_of r) (amount_or_zero r)) receipts []"

record vendor_row =
  vr_vendor :: pyval
  vr_count :: nat
  vr_total :: rat
  vr_average :: rat

definition vendor_result :: "arith \<Rightarrow> pyval \<times> nat \<times> rat \<Rightarrow> vendor_row" where
  "vendor_result ar g =
     (case g of (v, c, t) \<Rightarrow>
        \<lparr>vr_vendor = v, vr_count = c, vr_total = fround2 ar t,
         vr_average = (if c > 0 then fround2 ar (fdiv ar t (of_nat c)) else 0)\<rparr>)"

definition vendor_aggregation :: "arith \<Rightarrow> receipt list \<Rightarrow> vendor_row list" where
  "vendor_aggregation ar receipts =
     sorted_total vr_total True (map (vendor_result ar) (group_by ar vendor_of receipts))"

record category_row =
  cr_category :: pyval
  cr_count :: nat
  cr_amount :: rat

definition category_result :: "arith \<Rightarrow> pyval \<times> nat \<times> rat \<Rightarrow> category_row" where
  "category_result ar g =
     (case g of (v, c, t) \<Rightarrow> \<lparr>cr_category = v, cr_count = c, cr_amount = fround2 ar t\<rparr>)"

definition category_aggregation :: "arith \<Rightarrow> receipt list \<Rightarrow> category_row list" where
  "category_aggregation ar receipts =
     sorted_total cr_amount True (map (category_result ar) (group_by ar category_of receipts))"

text \<open>
  The total a group has accumulated from the amounts of its records, in their order:
  the first amount, then one float addition for each further amount.
\<close>

fun accumulated :: "arith \<Rightarrow> rat list \<Rightarrow> rat" where
  "accumulated ar [] = 0"
| "accumulated ar (a # as) = foldl (fadd ar) a as"

subsection \<open>Monthly sums\<close>

text \<open>
  \<^verbatim>\<open>time_series_aggregation\<close> keys its dictionary by \<^verbatim>\<open>strftime('%Y-%m')\<close> of the parsed
  date. Here the key is the pair of year and month, and \<open>month_key\<close> writes it with a
  four-digit year and a two-digit month; the second loop of the source parses that text
  back, which succeeds for every key written this way, and labels the row with
  \<^verbatim>\<open>strftime('%b %Y')\<close>.
\<close>

fun add_to_month :: "nat \<times> nat \<Rightarrow> rat \<Rightarrow> ((nat \<times> nat) \<times> rat) list \<Rightarrow> ((nat \<times> nat) \<times> rat) list" where
  "add_to_month k a [] = [(k, 0 + a)]"
| "add_to_month k a ((k', t) # ms) =
     (if k = k' then (k', t + a) # ms else (k', t) # add_to_month k a ms)"

definition month_step :: "receipt \<Rightarrow> ((nat \<times> nat) \<times> rat) list \<Rightarrow> ((nat \<times> nat) \<times> rat) list" where
  "month_step r monthly_stats =
     (case get r ''date'' of
        PStr s \<Rightarrow>
          (if s = [] then monthly_stats
           else (case strptime s of
                   None \<Rightarrow> monthly_stats
                 | Some (y, m, d, t) \<Rightarrow> add_to_month (y, m) (amount_or_zero r) monthly_stats))
      | v \<Rightarrow> monthly_stats)"

definition pad4 :: "nat \<Rightarrow> string" where
  "pad4 n = [digit_char (n div 1000), digit_char (n div 100), digit_char (n div 10), digit_char n]"

definition pad2 :: "nat \<Rightarrow> string" where
  "pad2 n = [digit_char (n div 10), digit_char n]"

definition month_key :: "nat \<times> nat \<Rightarrow> string" where
  "month_key k = (case k of (y, m) \<Rightarrow> pad4 y @ ''-'' @ pad2 m)"

definition month_names :: "string list" where
  "month_names = [''Jan'', ''Feb'', ''Mar'', ''Apr'', ''May'', ''Jun'',
                  ''Jul'', ''Aug'', ''Sep'', ''Oct'', ''Nov'', ''Dec'']"

definition month_label :: "nat \<times> nat \<Rightarrow> string" where
  "month_label k = (case k of (y, m) \<Rightarrow> month_names ! (m - 1) @ '' '' @ pad4 y)"

record month_row =
  mr_month :: string
  mr_amount :: rat
  mr_date_sort :: string

definition month_result :: "(nat \<times> nat) \<times> rat \<Rightarrow> month_row" where
  "month_result e =
     (case e of (k, a) \<Rightarrow>
        \<lparr>mr_month = month_label k, mr_amount = round2 a, mr_date_sort = month_key k\<rparr>)"

definition time_series_aggregation :: "receipt list \<Rightarrow> month_row list" where
  "time_series_aggregation receipts =
     sorted_total mr_date_sort False (map month_result (fold month_step receipts []))"

subsection \<open>moving_average and calculate_trends\<close>

text \<open>
  \<^verbatim>\<open>data[i:j]\<close> for \<^verbatim>\<open>i \<ge> 0\<close>: a negative \<^verbatim>\<open>j\<close> counts from the end, and both ends are
  clipped to the list.
\<close>

definition clip_index :: "nat \<Rightarrow> int \<Rightarrow> nat" where
  "clip_index n j = (if j < 0 then nat (int n + j) else min n (nat j))"

definition py_slice :: "'a list \<Rightarrow> int \<Rightarrow> int \<Rightarrow> 'a list" where
  "py_slice xs i j =
     (let lo = clip_index (length xs) i; hi = clip_index (length xs) j
      in take (hi - lo) (drop lo xs))"

text \<open>
  One pass of the loop body: the window, \<^verbatim>\<open>sum(window) / window_size\<close> and
  \<^verbatim>\<open>round(avg, 2)\<close>. The division raises when \<^verbatim>\<open>window_size\<close> is 0.
\<close>

definition window_average :: "arith \<Rightarrow> rat list \<Rightarrow> int \<Rightarrow> nat \<Rightarrow> error + rat" where
  "window_average ar data window_size i =
     (let window = py_slice data (int i) (int i + window_size)
      in if window_size = 0 then Inl ZeroDivisionError
         else Inr (fround2 ar (fdiv ar (fsum ar window) (of_int window_size))))"

definition moving_average :: "arith \<Rightarrow> rat list \<Rightarrow> int \<Rightarrow> error + rat list" where
  "moving_average ar data window_size =
     (if int (length data) < window_size then Inr data
      else map_err (window_average ar data window_size)
             [0 ..< nat (int (length data) - window_size + 1)])"

definition first_half :: "rat list \<Rightarrow> rat list" where
  "first_half amounts = take (length amounts div 2) amounts"

definition second_half :: "rat list \<Rightarrow> rat list" where
  "second_half amounts = drop (length amounts div 2) amounts"

text \<open>\<^verbatim>\<open>sum(half) / len(half) if half else 0\<close>.\<close>

definition average :: "arith \<Rightarrow> rat list \<Rightarrow> rat" where
  "average ar xs = (if xs = [] then 0 else fdiv ar (fsum ar xs) (of_nat (length xs)))"

text \<open>
  \<^verbatim>\<open>((second_avg - first_avg) / first_avg * 100) if first_avg > 0 else 0\<close>, and the value
  reported for it, \<^verbatim>\<open>round(growth_rate, 2)\<close>; rounding the integer 0 of the \<^verbatim>\<open>else\<close>
  branch gives 0.
\<close>

definition growth :: "arith \<Rightarrow> rat \<Rightarrow> rat \<Rightarrow> rat" where
  "growth ar first_avg second_avg =
     (if first_avg > 0 then fmul ar (fdiv ar (fsub ar second_avg first_avg) first_avg) 100
      else 0)"

definition reported_growth :: "arith \<Rightarrow> rat \<Rightarrow> rat \<Rightarrow> rat" where
  "reported_growth ar first_avg second_avg =
     (if first_avg > 0 then fround2 ar (growth ar first_avg second_avg) else 0)"

definition trend_of :: "rat \<Rightarrow> string" where
  "trend_of growth_rate =
     (if growth_rate > 5 then ''increasing''
      else if growth_rate < - 5 then ''decreasing'' else ''stable'')"

record trend_result =
  t_trend :: string
  t_growth_rate :: rat
  t_moving_average :: "rat list option"

definition calculate_trends :: "arith \<Rightarrow> month_row list \<Rightarrow> error + trend_result" where
  "calculate_trends ar monthly_data =
     (if length monthly_data < 2
      then Inr \<lparr>t_trend = ''insufficient_data'', t_growth_rate = 0, t_moving_average = None\<rparr>
      else
        (let amounts = map mr_amount monthly_data;
             first_avg = average ar (first_half amounts);
             second_avg = average ar (second_half amounts)
         in case moving_average ar amounts 3 of
              Inl e \<Rightarrow> Inl e
            | Inr ma \<Rightarrow>
                Inr \<lparr>t_trend = trend_of (growth ar first_avg second_avg),
                     t_growth_rate = reported_growth ar first_avg second_avg,
                     t_moving_average = Some ma\<rparr>))"

section \<open>The query engine (ComplexQueryEngine.execute_query)\<close>

record filters =
  f_keyword :: "string option"
  f_vendor :: "string option"
  f_category :: "string option"
  f_date_from :: "string option"
  f_date_to :: "string option"
  f_amount_min :: "rat option"
  f_amount_max :: "rat option"

record sort_options =
  so_field :: "string option"
  so_direction :: "string field"

text \<open>
  \<^verbatim>\<open>filters.get(k)\<close> is \<^verbatim>\<open>None\<close> for an absent key and for a stored \<^verbatim>\<open>None\<close>; the
  filters are options. \<open>given\<close> is the truth test \<^verbatim>\<open>if filters.get(k):\<close> of a text
  filter.
\<close>

fun given :: "string option \<Rightarrow> bool" where
  "given None = False"
| "given (Some s) = (s \<noteq> [])"

fun opt_str :: "string option \<Rightarrow> pyval" where
  "opt_str None = PNone"
| "opt_str (Some s) = PStr s"

fun opt_num :: "rat option \<Rightarrow> pyval" where
  "opt_num None = PNone"
| "opt_num (Some x) = PNum x"

definition search_fields :: "string list" where
  "search_fields = [''vendor'', ''category'', ''description'', ''extracted_text'']"

definition keyword_filter :: "filters \<Rightarrow> receipt list \<Rightarrow> receipt list" where
  "keyword_filter f data =
     (if given (f_keyword f) then keyword_search data (the (f_keyword f)) search_fields else data)"

text \<open>
  \<^verbatim>\<open>r.get('vendor', '').lower()\<close> raises \<^verbatim>\<open>AttributeError\<close> when the stored vendor is
  \<^verbatim>\<open>None\<close>.
\<close>

definition vendor_matches :: "string \<Rightarrow> receipt \<Rightarrow> error + bool" where
  "vendor_matches v r =
     (case get_default r ''vendor'' (PStr []) of
        PStr s \<Rightarrow> Inr (contains (lower s) (lower v))
      | other \<Rightarrow> Inl AttributeError)"

definition vendor_filter :: "filters \<Rightarrow> receipt list \<Rightarrow> error + receipt list" where
  "vendor_filter f data =
     (if given (f_vendor f) then filter_err (vendor_matches (the (f_vendor f))) data else Inr data)"

definition category_filter :: "filters \<Rightarrow> receipt list \<Rightarrow> receipt list" where
  "category_filter f data =
     (if given (f_category f) then filter (\<lambda>r. get r ''category'' = opt_str (f_category f)) data
      else data)"

definition date_filter :: "filters \<Rightarrow> receipt list \<Rightarrow> error + receipt list" where
  "date_filter f data =
     (if given (f_date_from f) \<or> given (f_date_to f)
      then range_search data ''date'' (opt_str (f_date_from f)) (opt_str (f_date_to f))
      else Inr data)"

definition amount_filter :: "filters \<Rightarrow> receipt list \<Rightarrow> error + receipt list" where
  "amount_filter f data =
     (if f_amount_min f \<noteq> None \<or> f_amount_max f \<noteq> None
      then range_search data ''amount'' (opt_num (f_amount_min f)) (opt_num (f_amount_max f))
      else Inr data)"

text \<open>The Filter Stage: the five filters in the order of the source.\<close>

definition apply_filters :: "receipt list \<Rightarrow> filters \<Rightarrow> error + receipt list" where
  "apply_filters data f =
     (case vendor_filter f (keyword_filter f data) of
        Inl e \<Rightarrow> Inl e
      | Inr d2 \<Rightarrow>
          (case date_filter f (category_filter f d2) of
             Inl e \<Rightarrow> Inl e
           | Inr d4 \<Rightarrow> amount_filter f d4))"

text \<open>
  The Sort Stage. \<^verbatim>\<open>reverse\<close> is \<^verbatim>\<open>sort_options.get('direction', 'desc') == 'desc'\<close>. The
  key of an item is its parsed date for the field \<^verbatim>\<open>date\<close> (\<^verbatim>\<open>datetime.min\<close> when the
  text does not parse), and otherwise \<^verbatim>\<open>value or\<close> an infinity chosen by the direction.
\<close>

fun is_reverse :: "string field \<Rightarrow> bool" where
  "is_reverse Absent = True"
| "is_reverse Null = False"
| "is_reverse (Val s) = (s = ''desc'')"

definition engine_sort_key :: "string \<Rightarrow> bool \<Rightarrow> receipt \<Rightarrow> error + pyval" where
  "engine_sort_key k reverse item =
     (let v = get item k
      in if k = ''date'' \<and> truthy v then
           (case v of
              PStr s \<Rightarrow>
                (case strptime s of
                   Some d \<Rightarrow> Inr (PDatetime d)
                 | None \<Rightarrow> Inr (PDatetime datetime_min))
            | other \<Rightarrow> Inl TypeError)
         else Inr (py_or v (if reverse then NegInf else PosInf)))"

definition apply_sort :: "sort_options \<Rightarrow> receipt list \<Rightarrow> error + receipt list" where
  "apply_sort so filtered_data =
     (if given (so_field so)
      then py_sorted (engine_sort_key (the (so_field so)) (is_reverse (so_direction so)))
             (is_reverse (so_direction so)) filtered_data
      else Inr filtered_data)"

record result_bundle =
  b_data :: "receipt list"
  b_count :: nat
  b_stats :: stats
  b_vendor_stats :: "vendor_row list"
  b_category_stats :: "category_row list"
  b_monthly_stats :: "month_row list"

definition execute_query :: "receipt list \<Rightarrow> filters \<Rightarrow> sort_options \<Rightarrow> error + result_bundle" where
  "execute_query data f so =
     (case apply_filters data f of
        Inl e \<Rightarrow> Inl e
      | Inr filtered \<Rightarrow>
          (case apply_sort so filtered of
             Inl e \<Rightarrow> Inl e
           | Inr filtered_data \<Rightarrow>
               (case calculate_basic_stats (map amount_or_zero filtered_data) of
                  Inl e \<Rightarrow> Inl e
                | Inr st \<Rightarrow>
                    Inr \<lparr>b_data = filtered_data, b_count = length filtered_data, b_stats = st,
                         b_vendor_stats = vendor_aggregation exact_arith filtered_data,
                         b_category_stats = category_aggregation exact_arith filtered_data,
                         b_monthly_stats = time_series_aggregation filtered_data\<rparr>)))"

section \<open>Example inputs\<close>

text \<open>
  A receipt as the transport layer builds it from a row whose nullable columns are all
  empty: every key is present and holds \<^verbatim>\<open>None\<close>. The examples below set some columns.
\<close>

definition null_receipt :: receipt where
  "null_receipt =
     \<lparr>r_id = Null, file_name = Null, vendor = Null, date = Null, amount = Null,
      category = Null, description = Null, upload_date = Null, file_type = Null,
      file_size = Null, status = Null, extracted_text = Null, confidence_score = Null\<rparr>"

definition dated :: "string \<Rightarrow> receipt" where
  "dated s = null_receipt\<lparr>date := Val s\<rparr>"

definition no_filters :: filters where
  "no_filters =
     \<lparr>f_keyword = None, f_vendor = None, f_category = None, f_date_from = None,
      f_date_to = None, f_amount_min = None, f_amount_max = None\<rparr>"

definition month_of :: "rat \<Rightarrow> month_row" where
  "month_of a = \<lparr>mr_month = [], mr_amount = a, mr_date_sort = []\<rparr>"

text \<open>
  The split as claim C2 words it, for comparison with \<open>first_half\<close> and \<open>second_half\<close>:
  the first half takes the extra element of an odd length.
\<close>

definition claimed_first_half :: "rat list \<Rightarrow> rat list" where
  "claimed_first_half amounts = take ((length amounts + 1) div 2) amounts"

definition claimed_second_half :: "rat list \<Rightarrow> rat list" where
  "claimed_second_half amounts = drop ((length amounts + 1) div 2) amounts"

definition claimed_growth_rate :: "arith \<Rightarrow> rat list \<Rightarrow> rat" where
  "claimed_growth_rate ar amounts =
     reported_growth ar (average ar (claimed_first_half amounts))
       (average ar (claimed_second_half amounts))"

definition purchase :: "string \<Rightarrow> rat \<Rightarrow> string \<Rightarrow> receipt" where
  "purchase v a d = null_receipt\<lparr>vendor := Val v, date := Val d, amount := Val a\<rparr>"

definition by_amount :: "string \<Rightarrow> sort_options" where
  "by_amount direction = \<lparr>so_field = Some ''amount'', so_direction = Val direction\<rparr>"


section \<open>Properties\<close>

subsection \<open>The partition-based sort\<close>

lemma mset_three_way:
  fixes p :: "'k::linorder"
  shows "mset [x \<leftarrow> xs. f x < p] + mset [x \<leftarrow> xs. f x = p] + mset [x \<leftarrow> xs. p < f x] = mset xs"
  by (induction xs) auto

lemma sorted_equal_keys:
  fixes p :: "'k::linorder"
  shows "sorted (map f [x \<leftarrow> xs. f x = p])"
  by (induction xs) auto

lemma sorted_short:
  fixes ks :: "'k::linorder list"
  shows "length ks \<le> 1 \<Longrightarrow> sorted ks"
  by (cases ks) (auto simp: Suc_le_eq)

lemma total_order_cmp:
  "cmp_lt total_order a b = (a < b)"
  "cmp_eq total_order a b = (a = b)"
  "cmp_gt total_order a b = (b < a)"
  by (simp_all add: total_order_def)

lemma quicksort_step:
  assumes "\<not> length arr \<le> 1"
  shows "quicksort (Suc d) total_order key_func arr =
    (case quicksort d total_order key_func
            [x \<leftarrow> arr. key_func x < key_func (arr ! (length arr div 2))] of
       Inl e \<Rightarrow> Inl e
     | Inr l \<Rightarrow>
         (case quicksort d total_order key_func
                 [x \<leftarrow> arr. key_func (arr ! (length arr div 2)) < key_func x] of
            Inl e \<Rightarrow> Inl e
          | Inr r \<Rightarrow>
              Inr (l @ [x \<leftarrow> arr. key_func x = key_func (arr ! (length arr div 2))] @ r)))"
  using assms by (simp add: Let_def total_order_cmp)

lemma quicksort_total_order:
  "length arr < depth \<Longrightarrow>
   \<exists>out. quicksort depth total_order key_func arr = Inr out \<and>
         mset out = mset arr \<and> sorted (map key_func out)"
proof (induction depth arbitrary: arr)
  case 0
  then show ?case by simp
next
  case (Suc d)
  show ?case
  proof (cases "length arr \<le> 1")
    case True
    then have "sorted (map key_func arr)"
      by (intro sorted_short) simp
    then show ?thesis
      using True by simp
  next
    case False
    let ?p = "key_func (arr ! (length arr div 2))"
    let ?l = "[x \<leftarrow> arr. key_func x < ?p]"
    let ?m = "[x \<leftarrow> arr. key_func x = ?p]"
    let ?r = "[x \<leftarrow> arr. ?p < key_func x]"
    have mem: "arr ! (length arr div 2) \<in> set arr"
      using False by simp
    have "length ?l < length arr"
      using mem by (intro length_filter_less[of "arr ! (length arr div 2)"]) auto
    then have ll: "length ?l < d"
      using Suc.prems by linarith
    have "length ?r < length arr"
      using mem by (intro length_filter_less[of "arr ! (length arr div 2)"]) auto
    then have lr: "length ?r < d"
      using Suc.prems by linarith
    obtain l where l: "quicksort d total_order key_func ?l = Inr l"
      and ml: "mset l = mset ?l" and sl: "sorted (map key_func l)"
      using Suc.IH[OF ll] by blast
    obtain r where r: "quicksort d total_order key_func ?r = Inr r"
      and mr: "mset r = mset ?r" and sr: "sorted (map key_func r)"
      using Suc.IH[OF lr] by blast
    have q: "quicksort (Suc d) total_order key_func arr = Inr (l @ ?m @ r)"
      by (subst quicksort_step[OF False]) (simp add: l r)
    have ms: "mset (l @ ?m @ r) = mset arr"
      using ml mr mset_three_way[of key_func ?p arr] by (simp add: add.assoc)
    have setl: "set l = set ?l"
      using ml by (rule mset_eq_setD)
    have setr: "set r = set ?r"
      using mr by (rule mset_eq_setD)
    have sm: "sorted (map key_func ?m)"
      by (rule sorted_equal_keys)
    have srt: "sorted (map key_func (l @ ?m @ r))"
      using sl sr sm by (auto simp: sorted_append setl setr)
    show ?thesis
      using q ms srt by blast
  qed
qed

lemma equal_keys_between:
  fixes ks :: "'k::linorder list"
  assumes "sorted ks" "i \<le> j" "j \<le> k" "k < length ks" "ks ! i = ks ! k"
  shows "ks ! j = ks ! i"
proof -
  have "ks ! i \<le> ks ! j"
    using assms(1,2,3,4) by (intro sorted_nth_mono) auto
  moreover have "ks ! j \<le> ks ! k"
    using assms(1,3,4) by (intro sorted_nth_mono) auto
  ultimately show ?thesis
    using assms(5) by simp
qed

text \<open>
  Claim C8, as amended. For every list and every key function into a type that \<^verbatim>\<open><\<close>,
  \<^verbatim>\<open>==\<close> and \<^verbatim>\<open>>\<close> order totally, called where the stack admits more nested calls of
  \<open>quicksort\<close> than the list has elements, \<open>quicksort\<close> returns; its result is a permutation of the input,
  is ordered non-decreasingly by key, and holds the elements of equal key next to each
  other (whenever two positions carry the same key, so does every position between
  them); and the input list is as it was before the call.
\<close>

theorem quicksort_sorted_permutation:
  assumes "length arr < depth"
  shows "\<exists>out. quicksort_call depth total_order key_func arr = (arr, Inr out) \<and>
           mset out = mset arr \<and>
           sorted (map key_func out) \<and>
           (\<forall>i j k. i \<le> j \<and> j \<le> k \<and> k < length out \<and>
                key_func (out ! i) = key_func (out ! k)
              \<longrightarrow> key_func (out ! j) = key_func (out ! i))"
proof -
  obtain out where q: "quicksort depth total_order key_func arr = Inr out"
    and ms: "mset out = mset arr" and s: "sorted (map key_func out)"
    using quicksort_total_order[OF assms] by blast
  have adj: "\<forall>i j k. i \<le> j \<and> j \<le> k \<and> k < length out \<and>
                key_func (out ! i) = key_func (out ! k)
              \<longrightarrow> key_func (out ! j) = key_func (out ! i)"
  proof (intro allI impI)
    fix i j k
    assume h: "i \<le> j \<and> j \<le> k \<and> k < length out \<and>
      key_func (out ! i) = key_func (out ! k)"
    have len: "k < length (map key_func out)"
      using h by simp
    have "map key_func out ! i = map key_func out ! k"
      using h by simp
    then have "map key_func out ! j = map key_func out ! i"
      using equal_keys_between[OF s _ _ len, of i j] h by blast
    then show "key_func (out ! j) = key_func (out ! i)"
      using h by simp
  qed
  have "quicksort_call depth total_order key_func arr = (arr, Inr out)"
    by (simp add: quicksort_call_def q)
  then show ?thesis
    using ms s adj by blast
qed

theorem quicksort_sorted_permutation_witness:
  "length [(30::nat, ''c''), (10, ''a''), (20, ''b''), (10, ''d''), (10, ''e'')] < 1000 \<and>
   quicksort_call 1000 total_order fst
       [(30::nat, ''c''), (10, ''a''), (20, ''b''), (10, ''d''), (10, ''e'')]
     = ([(30, ''c''), (10, ''a''), (20, ''b''), (10, ''d''), (10, ''e'')],
        Inr [(10, ''a''), (10, ''d''), (10, ''e''), (20, ''b''), (30, ''c'')]) \<and>
   mset [(10::nat, ''a''), (10, ''d''), (10, ''e''), (20, ''b''), (30, ''c'')]
     = mset [(30::nat, ''c''), (10, ''a''), (20, ''b''), (10, ''d''), (10, ''e'')] \<and>
   sorted (map fst [(10::nat, ''a''), (10, ''d''), (10, ''e''), (20, ''b''), (30, ''c'')]) \<and>
   fst ([(10::nat, ''a''), (10, ''d''), (10, ''e''), (20, ''b''), (30, ''c'')] ! 0)
     = fst ([(10::nat, ''a''), (10, ''d''), (10, ''e''), (20, ''b''), (30, ''c'')] ! 2) \<and>
   fst ([(10::nat, ''a''), (10, ''d''), (10, ''e''), (20, ''b''), (30, ''c'')] ! 1)
     = fst ([(10::nat, ''a''), (10, ''d''), (10, ''e''), (20, ''b''), (30, ''c'')] ! 0)"
proof -
  let ?L = "[(30::nat, ''c''), (10, ''a''), (20, ''b''), (10, ''d''), (10, ''e'')]"
  let ?S = "[(10::nat, ''a''), (10, ''d''), (10, ''e''), (20, ''b''), (30, ''c'')]"
  have h: "length ?L < 1000"
    by simp
  have ev: "quicksort_call 1000 total_order fst ?L = (?L, Inr ?S)"
    by code_simp
  obtain out where c: "quicksort_call 1000 total_order fst ?L = (?L, Inr out)"
    and ms: "mset out = mset ?L" and s: "sorted (map fst out)"
    and adj: "\<forall>i j k. i \<le> j \<and> j \<le> k \<and> k < length out \<and> fst (out ! i) = fst (out ! k)
              \<longrightarrow> fst (out ! j) = fst (out ! i)"
    using quicksort_sorted_permutation [OF h, of fst] by blast
  have out: "out = ?S"
    using c ev by simp
  have p1: "mset ?S = mset ?L"
    using ms unfolding out .
  have p2: "sorted (map fst ?S)"
    using s unfolding out .
  have eq: "fst (?S ! 0) = fst (?S ! 2)"
    by simp
  have p3: "fst (?S ! 1) = fst (?S ! 0)"
    using adj [unfolded out, rule_format, of 0 1 2] eq by simp
  show ?thesis
    using h ev p1 p2 eq p3 by (intro conjI)
qed

text \<open>
  The claim as stated covers every key function and every list. With float keys of which
  one is NaN (here \<open>None\<close>), taken as the pivot, no element is below, equal to or above the
  pivot's key, and the result is the empty list, which is not a permutation of the
  input. And where the stack admits fewer nested calls than the recursion makes, the call
  raises \<^verbatim>\<open>RecursionError\<close>.
\<close>

theorem quicksort_drops_unordered_keys:
  "quicksort 1000 float_order (\<lambda>x. x) [Some 1, None, Some 2] = Inr [] \<and>
   mset ([] :: rat option list) \<noteq> mset [Some 1, None, Some 2] \<and>
   quicksort 2 total_order (\<lambda>x. x) [2, 1, 3 :: nat] = Inl RecursionError"
proof -
  have a: "quicksort 1000 float_order (\<lambda>x. x) [Some 1, None, Some 2] = Inr []"
    by code_simp
  have b: "mset ([] :: rat option list) \<noteq> mset [Some 1, None, Some 2]"
    by simp
  have c: "quicksort 2 total_order (\<lambda>x. x) [2, 1, 3 :: nat] = Inl RecursionError"
    by code_simp
  show ?thesis
    using a b c by (intro conjI)
qed

subsection \<open>Basic statistics\<close>

text \<open>
  Claim C3. On the amounts 10, 20, 30, where every value occurs once,
  \<open>calculate_basic_stats\<close> reports the mode 10, the first of the most frequent values,
  while the median is 20: \<^verbatim>\<open>statistics.mode\<close> does not raise on non-empty data, so the
  median fallback of the \<^verbatim>\<open>except\<close> branch is not taken.
\<close>

theorem basic_stats_mode_of_distinct:
  "calculate_basic_stats [10, 20, 30]
     = Inr \<lparr>s_sum = 60, s_mean = 20, s_median = 20, s_mode = 10\<rparr>"
  by code_simp

subsection \<open>The date range filter\<close>

text \<open>
  Claim C4. With the well-formed bound 2024-01-01 as \<^verbatim>\<open>date_from\<close>, a record whose date
  is the text \<^verbatim>\<open>garbage\<close> is kept by the Filter Stage (it is compared with the bound as
  text), and when a record with a parsable date precedes it the comparison of the text
  with the converted bound raises \<^verbatim>\<open>TypeError\<close>.
\<close>

theorem date_filter_keeps_or_raises:
  "apply_filters [dated ''garbage''] (no_filters\<lparr>f_date_from := Some ''2024-01-01''\<rparr>)
     = Inr [dated ''garbage''] \<and>
   strptime ''garbage'' = None \<and>
   apply_filters [dated ''2024-01-05'', dated ''garbage'']
       (no_filters\<lparr>f_date_from := Some ''2024-01-01''\<rparr>)
     = Inl TypeError"
  by code_simp

subsection \<open>Moving average\<close>

lemma map_err_all_ok:
  "(\<And>x. x \<in> set xs \<Longrightarrow> f x = Inr (g x)) \<Longrightarrow> map_err f xs = Inr (map g xs)"
  by (induction xs) auto

lemma py_slice_window:
  assumes "i + w \<le> length data"
  shows "py_slice data (int i) (int i + int w) = take w (drop i data)"
proof -
  have lo: "clip_index (length data) (int i) = i"
    using assms by (simp add: clip_index_def)
  have "nat (int i + int w) = i + w"
    by simp
  then have hi: "clip_index (length data) (int i + int w) = i + w"
    using assms by (simp add: clip_index_def del: nat_int)
  show ?thesis
    by (simp add: py_slice_def lo hi)
qed

lemma window_average_ok:
  assumes "1 \<le> w" and "i + nat w \<le> length data"
  shows "window_average ar data w i
    = Inr (fround2 ar (fdiv ar (fsum ar (take (nat w) (drop i data))) (of_int w)))"
proof -
  have w: "w = int (nat w)"
    using assms(1) by simp
  have "py_slice data (int i) (int i + w) = take (nat w) (drop i data)"
    using py_slice_window[OF assms(2)] w by simp
  then show ?thesis
    using assms(1) by (simp add: window_average_def)
qed

lemma moving_average_ok:
  assumes "1 \<le> w" and "w \<le> int (length data)"
  shows "moving_average ar data w =
    Inr (map (\<lambda>i. fround2 ar (fdiv ar (fsum ar (take (nat w) (drop i data))) (of_int w)))
           [0 ..< length data - nat w + 1])"
proof -
  have n: "nat (int (length data) - w + 1) = length data - nat w + 1"
    using assms by linarith
  have "map_err (window_average ar data w) [0 ..< length data - nat w + 1] =
    Inr (map (\<lambda>i. fround2 ar (fdiv ar (fsum ar (take (nat w) (drop i data))) (of_int w)))
           [0 ..< length data - nat w + 1])"
  proof (rule map_err_all_ok)
    fix i
    assume "i \<in> set [0 ..< length data - nat w + 1]"
    then have "i + nat w \<le> length data"
      using assms by auto
    then show "window_average ar data w i =
        Inr (fround2 ar (fdiv ar (fsum ar (take (nat w) (drop i data))) (of_int w)))"
      by (rule window_average_ok[OF assms(1)])
  qed
  then show ?thesis
    using assms(2) by (simp add: moving_average_def n)
qed

lemma moving_average_short:
  "int (length data) < w \<Longrightarrow> moving_average ar data w = Inr data"
  by (simp add: moving_average_def)

text \<open>
  Claim C7, as amended. For every numeric sequence and every window size \<open>w \<ge> 1\<close>, and
  whatever float arithmetic rounds to: a sequence shorter than \<open>w\<close> is returned unchanged;
  otherwise the result has \<open>len - w + 1\<close> values in input order, and the value at position
  \<open>i\<close> is the mean of the \<open>w\<close> contiguous elements from position \<open>i\<close> on, computed as their
  float sum divided by \<open>w\<close>, rounded to two decimals by \<^verbatim>\<open>round\<close>.
\<close>

theorem moving_average_windows:
  assumes "1 \<le> w"
  shows "(int (length data) < w \<longrightarrow> moving_average ar data w = Inr data) \<and>
    (w \<le> int (length data) \<longrightarrow>
      (\<exists>out. moving_average ar data w = Inr out \<and>
         length out = length data - nat w + 1 \<and>
         (\<forall>i < length out.
            out ! i = fround2 ar (fdiv ar (fsum ar (take (nat w) (drop i data))) (of_int w)))))"
proof (intro conjI impI)
  assume "int (length data) < w"
  then show "moving_average ar data w = Inr data"
    by (rule moving_average_short)
next
  assume le: "w \<le> int (length data)"
  let ?out = "map (\<lambda>i. fround2 ar (fdiv ar (fsum ar (take (nat w) (drop i data))) (of_int w)))
           [0 ..< length data - nat w + 1]"
  have "moving_average ar data w = Inr ?out"
    by (rule moving_average_ok[OF assms le])
  moreover have "length ?out = length data - nat w + 1"
    by simp
  moreover have "\<forall>i < length ?out.
      ?out ! i = fround2 ar (fdiv ar (fsum ar (take (nat w) (drop i data))) (of_int w))"
    by (simp del: upt_Suc)
  ultimately show "\<exists>out. moving_average ar data w = Inr out \<and>
         length out = length data - nat w + 1 \<and>
         (\<forall>i < length out.
            out ! i = fround2 ar (fdiv ar (fsum ar (take (nat w) (drop i data))) (of_int w)))"
    by blast
qed

theorem moving_average_windows_witness:
  "(1::int) \<le> 2 \<and> (2::int) \<le> int (length [1, 2, 3, 4 :: rat]) \<and>
   moving_average exact_arith [1, 2, 3, 4] 2 = Inr [3 / 2, 5 / 2, 7 / 2] \<and>
   length [3 / 2, 5 / 2, 7 / 2 :: rat] = length [1, 2, 3, 4 :: rat] - nat 2 + 1 \<and>
   int (length [1, 2 :: rat]) < 3 \<and> moving_average exact_arith [1, 2] 3 = Inr [1, 2]"
proof -
  have one: "(1::int) \<le> 2" and three: "(1::int) \<le> 3"
    by simp_all
  have le: "(2::int) \<le> int (length [1, 2, 3, 4 :: rat])"
    by simp
  have lt: "int (length [1, 2 :: rat]) < 3"
    by simp
  have ev: "moving_average exact_arith [1, 2, 3, 4] 2 = Inr [3 / 2, 5 / 2, 7 / 2]"
    by code_simp
  obtain out where out: "moving_average exact_arith [1, 2, 3, 4] 2 = Inr out"
      and len: "length out = length [1, 2, 3, 4 :: rat] - nat 2 + 1"
    using moving_average_windows [OF one, of "[1, 2, 3, 4]" exact_arith] le by blast
  have "out = [3 / 2, 5 / 2, 7 / 2]"
    using out ev by simp
  then have l: "length [3 / 2, 5 / 2, 7 / 2 :: rat] = length [1, 2, 3, 4 :: rat] - nat 2 + 1"
    using len by simp
  have short: "moving_average exact_arith [1, 2] 3 = Inr [1, 2]"
    using moving_average_windows [OF three, of "[1, 2]" exact_arith] lt by blast
  show ?thesis
    using one le ev l lt short by (intro conjI)
qed

text \<open>
  The claim as stated covers every window size. With the window size 0 the loop body
  divides by zero on its first pass.
\<close>

theorem moving_average_zero_window:
  "\<not> int (length [1, 2, 3 :: rat]) < 0 \<and>
   moving_average exact_arith [1, 2, 3] 0 = Inl ZeroDivisionError"
  by code_simp

subsection \<open>Trend classification\<close>

lemma moving_average_default: "\<exists>ma. moving_average ar xs 3 = Inr ma"
proof (cases "int (length xs) < 3")
  case True
  then show ?thesis
    by (simp add: moving_average_short)
next
  case False
  then have "3 \<le> int (length xs)"
    by simp
  then show ?thesis
    using moving_average_ok[of 3 xs ar] by simp
qed

lemma average_nonempty:
  "xs \<noteq> [] \<Longrightarrow> average ar xs = fdiv ar (fsum ar xs) (of_nat (length xs))"
  by (simp add: average_def)

text \<open>
  Claim C2, as amended. For every monthly series of length \<open>n \<ge> 2\<close>, and whatever float
  arithmetic rounds to, \<open>calculate_trends\<close> splits the amounts at \<open>n div 2\<close>: the first half
  has \<open>floor(n/2)\<close> elements and the second half the remaining \<open>ceil(n/2)\<close>, so on an odd
  length the second half holds the extra element. With the mean of a half computed as its
  float sum divided by its length, the growth rate is
  \<open>(secondMean - firstMean) / firstMean * 100\<close> in float arithmetic when \<open>firstMean > 0\<close>,
  reported rounded to two decimals by \<^verbatim>\<open>round\<close>, and 0 otherwise.
\<close>

theorem calculate_trends_split:
  assumes "2 \<le> length monthly_data"
  shows "length (first_half (map mr_amount monthly_data)) = length monthly_data div 2 \<and>
    length (second_half (map mr_amount monthly_data)) = (length monthly_data + 1) div 2 \<and>
    first_half (map mr_amount monthly_data) @ second_half (map mr_amount monthly_data)
      = map mr_amount monthly_data \<and>
    (\<exists>res. calculate_trends ar monthly_data = Inr res \<and>
       t_growth_rate res =
         (if 0 < fdiv ar (fsum ar (first_half (map mr_amount monthly_data)))
                   (of_nat (length monthly_data div 2))
          then fround2 ar
                 (fmul ar
                    (fdiv ar
                       (fsub ar
                          (fdiv ar (fsum ar (second_half (map mr_amount monthly_data)))
                             (of_nat ((length monthly_data + 1) div 2)))
                          (fdiv ar (fsum ar (first_half (map mr_amount monthly_data)))
                             (of_nat (length monthly_data div 2))))
                       (fdiv ar (fsum ar (first_half (map mr_amount monthly_data)))
                          (of_nat (length monthly_data div 2))))
                    100)
          else 0))"
proof -
  let ?a = "map mr_amount monthly_data"
  have l1: "length (first_half ?a) = length monthly_data div 2"
    by (simp add: first_half_def)
  have l2: "length (second_half ?a) = (length monthly_data + 1) div 2"
    by (simp add: second_half_def)
  have app: "first_half ?a @ second_half ?a = ?a"
    by (simp add: first_half_def second_half_def)
  have "0 < length monthly_data div 2"
    using assms by simp
  then have ne1: "first_half ?a \<noteq> []"
    using l1 by auto
  have "0 < (length monthly_data + 1) div 2"
    using assms by simp
  then have ne2: "second_half ?a \<noteq> []"
    using l2 by auto
  have a1: "average ar (first_half ?a)
      = fdiv ar (fsum ar (first_half ?a)) (of_nat (length monthly_data div 2))"
    using average_nonempty[OF ne1] l1 by simp
  have a2: "average ar (second_half ?a)
      = fdiv ar (fsum ar (second_half ?a)) (of_nat ((length monthly_data + 1) div 2))"
    using average_nonempty[OF ne2] l2 by simp
  obtain ma where ma: "moving_average ar ?a 3 = Inr ma"
    using moving_average_default by blast
  have "\<not> length monthly_data < 2"
    using assms by simp
  then have ct: "calculate_trends ar monthly_data =
      Inr \<lparr>t_trend = trend_of (growth ar (average ar (first_half ?a)) (average ar (second_half ?a))),
           t_growth_rate = reported_growth ar (average ar (first_half ?a)) (average ar (second_half ?a)),
           t_moving_average = Some ma\<rparr>"
    by (simp add: calculate_trends_def Let_def ma)
  have "reported_growth ar (average ar (first_half ?a)) (average ar (second_half ?a)) =
      (if 0 < fdiv ar (fsum ar (first_half ?a)) (of_nat (length monthly_data div 2))
       then fround2 ar
              (fmul ar
                 (fdiv ar
                    (fsub ar
                       (fdiv ar (fsum ar (second_half ?a)) (of_nat ((length monthly_data + 1) div 2)))
                       (fdiv ar (fsum ar (first_half ?a)) (of_nat (length monthly_data div 2))))
                    (fdiv ar (fsum ar (first_half ?a)) (of_nat (length monthly_data div 2))))
                 100)
       else 0)"
    unfolding reported_growth_def growth_def a1 a2 by simp
  then show ?thesis
    using l1 l2 app ct by simp
qed

theorem calculate_trends_split_witness:
  "2 \<le> length (map month_of [100, 100, 200]) \<and>
   length (first_half (map mr_amount (map month_of [100, 100, 200]))) = 1 \<and>
   length (second_half (map mr_amount (map month_of [100, 100, 200]))) = 2 \<and>
   map_sum (\<lambda>e. e) (\<lambda>res. (t_trend res, t_growth_rate res))
       (calculate_trends exact_arith (map month_of [100, 100, 200]))
     = Inr (''increasing'', 50)"
proof -
  have h: "2 \<le> length (map month_of [100, 100, 200])"
    by simp
  note t = calculate_trends_split [OF h]
  have p1: "length (first_half (map mr_amount (map month_of [100, 100, 200]))) = 1"
    using t [THEN conjunct1] by simp
  have p2: "length (second_half (map mr_amount (map month_of [100, 100, 200]))) = 2"
    using t [THEN conjunct2, THEN conjunct1] by simp
  have p3: "map_sum (\<lambda>e. e) (\<lambda>res. (t_trend res, t_growth_rate res))
       (calculate_trends exact_arith (map month_of [100, 100, 200]))
     = Inr (''increasing'', 50)"
    by code_simp
  show ?thesis
    using h p1 p2 p3 by (intro conjI)
qed

text \<open>
  The claim as stated gives the extra element of an odd length to the first half. On the
  amounts 100, 100, 200 the first half of the source has one element, not two, and the
  reported growth rate is 50, not the 100 of the claimed split (on these amounts float
  arithmetic is exact).
\<close>

theorem calculate_trends_first_half_counterexample:
  "odd (length [100, 100, 200 :: rat]) \<and> 2 \<le> length [100, 100, 200 :: rat] \<and>
   length (first_half [100, 100, 200]) \<noteq> (length [100, 100, 200 :: rat] + 1) div 2 \<and>
   length (claimed_first_half [100, 100, 200]) = (length [100, 100, 200 :: rat] + 1) div 2 \<and>
   map_sum (\<lambda>e. e) t_growth_rate (calculate_trends exact_arith (map month_of [100, 100, 200]))
     = Inr 50 \<and>
   claimed_growth_rate exact_arith [100, 100, 200] = 100"
  by code_simp

subsection \<open>The engine selects and reorders\<close>

lemma set_keyword_search: "set (keyword_search data k fs) \<subseteq> set data"
  by (auto simp: keyword_search_def)

lemma filter_err_subset: "filter_err p xs = Inr ys \<Longrightarrow> set ys \<subseteq> set xs"
proof (induction xs arbitrary: ys)
  case Nil
  then show ?case by simp
next
  case (Cons x xs)
  then show ?case
    by (auto split: sum.splits if_splits)
qed

lemma range_loop_subset:
  "range_loop k mn mx acc data = Inr res \<Longrightarrow> set res \<subseteq> set acc \<union> set data"
proof (induction data arbitrary: mn mx acc)
  case Nil
  then show ?case by simp
next
  case (Cons item data)
  from Cons.prems obtain mn' mx' keep where
    loop: "range_loop k mn' mx' (if keep then acc @ [item] else acc) data = Inr res"
    by (auto split: sum.splits)
  have "set res \<subseteq> set (if keep then acc @ [item] else acc) \<union> set data"
    by (rule Cons.IH[OF loop])
  then show ?case
    by (auto split: if_splits)
qed

lemma range_search_subset: "range_search data k mn mx = Inr res \<Longrightarrow> set res \<subseteq> set data"
  using range_loop_subset[of k mn mx "[]" data res] by (simp add: range_search_def)

lemma sorted_total_mset: "mset (sorted_total f r xs) = mset xs"
  by (simp add: sorted_total_def)

lemma py_sorted_mset: "py_sorted f r xs = Inr ys \<Longrightarrow> mset ys = mset xs"
  by (auto simp: py_sorted_def sorted_total_mset split: sum.splits if_splits)

lemma apply_filters_subset:
  assumes "apply_filters data f = Inr res"
  shows "set res \<subseteq> set data"
proof -
  from assms obtain d2 d4 where
    v: "vendor_filter f (keyword_filter f data) = Inr d2" and
    d: "date_filter f (category_filter f d2) = Inr d4" and
    a: "amount_filter f d4 = Inr res"
    by (auto simp: apply_filters_def split: sum.splits)
  have "set (keyword_filter f data) \<subseteq> set data"
    using set_keyword_search by (auto simp: keyword_filter_def)
  moreover have "set d2 \<subseteq> set (keyword_filter f data)"
    using v filter_err_subset by (auto simp: vendor_filter_def split: if_splits)
  moreover have "set (category_filter f d2) \<subseteq> set d2"
    by (auto simp: category_filter_def)
  moreover have "set d4 \<subseteq> set (category_filter f d2)"
    using d range_search_subset by (auto simp: date_filter_def split: if_splits)
  moreover have "set res \<subseteq> set d4"
    using a range_search_subset by (auto simp: amount_filter_def split: if_splits)
  ultimately show ?thesis
    by blast
qed

lemma apply_sort_mset: "apply_sort so xs = Inr ys \<Longrightarrow> mset ys = mset xs"
  by (auto simp: apply_sort_def dest: py_sorted_mset split: if_splits)

lemma execute_query_stages:
  assumes "execute_query data f so = Inr b"
  shows "\<exists>filtered. apply_filters data f = Inr filtered \<and>
           apply_sort so filtered = Inr (b_data b) \<and> b_count b = length (b_data b)"
  using assms by (auto simp: execute_query_def split: sum.splits)

text \<open>
  Claim C5. Whenever \<open>execute_query\<close> returns a bundle, its count is the length of its
  data sequence and every record of the data sequence is a record of the input.
\<close>

theorem execute_query_count_and_subset:
  assumes "execute_query data f so = Inr b"
  shows "b_count b = length (b_data b) \<and> set (b_data b) \<subseteq> set data"
proof -
  from execute_query_stages[OF assms] obtain filtered where
    fl: "apply_filters data f = Inr filtered" and
    st: "apply_sort so filtered = Inr (b_data b)" and
    cnt: "b_count b = length (b_data b)"
    by blast
  have "set (b_data b) = set filtered"
    using apply_sort_mset[OF st] by (metis set_mset_mset)
  then show ?thesis
    using apply_filters_subset[OF fl] cnt by simp
qed

theorem execute_query_count_and_subset_witness:
  "\<exists>b. execute_query
          [purchase ''Costco'' 50 ''2024-01-05'', purchase ''Costco'' 30 ''2024-02-10'',
           purchase ''Shell'' 20 ''2024-02-15'']
          (no_filters\<lparr>f_vendor := Some ''cost''\<rparr>) (by_amount ''asc'') = Inr b \<and>
       b_data b = [purchase ''Costco'' 30 ''2024-02-10'', purchase ''Costco'' 50 ''2024-01-05''] \<and>
       b_count b = 2 \<and>
       b_count b = length (b_data b) \<and>
       set (b_data b) \<subseteq> set [purchase ''Costco'' 50 ''2024-01-05'',
           purchase ''Costco'' 30 ''2024-02-10'', purchase ''Shell'' 20 ''2024-02-15'']"
proof -
  let ?q = "execute_query
          [purchase ''Costco'' 50 ''2024-01-05'', purchase ''Costco'' 30 ''2024-02-10'',
           purchase ''Shell'' 20 ''2024-02-15'']
          (no_filters\<lparr>f_vendor := Some ''cost''\<rparr>) (by_amount ''asc'')"
  have ev: "map_sum (\<lambda>e. e) (\<lambda>b. (b_data b, b_count b)) ?q
      = Inr ([purchase ''Costco'' 30 ''2024-02-10'', purchase ''Costco'' 50 ''2024-01-05''], 2)"
    by code_simp
  then obtain b where b: "?q = Inr b"
    and d: "b_data b = [purchase ''Costco'' 30 ''2024-02-10'', purchase ''Costco'' 50 ''2024-01-05'']"
    and c: "b_count b = 2"
    by (cases ?q) auto
  show ?thesis
    using b d c execute_query_count_and_subset [OF b] by blast
qed

subsection \<open>The engine's sort\<close>

lemma sorted_total_stable:
  "filter (\<lambda>x. f x = k) (sorted_total f r xs) = filter (\<lambda>x. f x = k) xs"
proof (cases r)
  case True
  have "filter (\<lambda>x. f x = k) (rev (sort_key f (rev xs)))
      = rev (filter (\<lambda>x. f x = k) (sort_key f (rev xs)))"
    by (simp add: rev_filter)
  also have "\<dots> = rev (filter (\<lambda>x. f x = k) (rev xs))"
    by (simp add: sort_key_stable)
  also have "\<dots> = filter (\<lambda>x. f x = k) xs"
    by (simp add: rev_filter)
  finally show ?thesis
    using True by (simp add: sorted_total_def)
next
  case False
  then show ?thesis
    by (simp add: sorted_total_def sort_key_stable)
qed

lemma filter_refine:
  "(\<And>x. P x \<Longrightarrow> Q x) \<Longrightarrow> filter P xs = filter P (filter Q xs)"
  by (induction xs) auto

lemma py_sorted_result:
  "py_sorted kf r xs = Inr ys \<Longrightarrow> ys = sorted_total (\<lambda>x. rank (key_val (kf x))) r xs"
  by (auto simp: py_sorted_def split: sum.splits if_splits)

lemma py_sorted_stable:
  assumes "py_sorted kf r xs = Inr ys"
  shows "filter (\<lambda>x. kf x = key) ys = filter (\<lambda>x. kf x = key) xs"
proof -
  let ?F = "\<lambda>x. rank (key_val (kf x))"
  let ?P = "\<lambda>x. kf x = key"
  let ?Q = "\<lambda>x. ?F x = rank (key_val key)"
  have ys: "ys = sorted_total ?F r xs"
    by (rule py_sorted_result[OF assms])
  have imp: "\<And>x. ?P x \<Longrightarrow> ?Q x"
    by simp
  have "filter ?P ys = filter ?P (filter ?Q ys)"
    by (rule filter_refine[OF imp])
  also have "filter ?Q ys = filter ?Q xs"
    unfolding ys by (rule sorted_total_stable)
  also have "filter ?P (filter ?Q xs) = filter ?P xs"
    by (rule filter_refine[OF imp, symmetric])
  finally show ?thesis .
qed

lemma apply_sort_stable:
  assumes "apply_sort so xs = Inr ys" and "so_field so = Some k"
  shows "filter (\<lambda>r. engine_sort_key k (is_reverse (so_direction so)) r = key) ys
       = filter (\<lambda>r. engine_sort_key k (is_reverse (so_direction so)) r = key) xs"
proof (cases "given (so_field so)")
  case True
  then have "py_sorted (engine_sort_key k (is_reverse (so_direction so)))
      (is_reverse (so_direction so)) xs = Inr ys"
    using assms by (simp add: apply_sort_def)
  then show ?thesis
    by (rule py_sorted_stable)
next
  case False
  then have "ys = xs"
    using assms(1) by (simp add: apply_sort_def)
  then show ?thesis
    by simp
qed

text \<open>
  Claim C6. Whenever \<open>execute_query\<close> returns a bundle for a sort by field \<open>k\<close>, in
  either direction, the data sequence is a permutation of the filtered sequence, and for
  every key value the records carrying that sort key appear in the data sequence in the
  order they had in the filtered sequence.
\<close>

theorem engine_sort_stable:
  assumes "execute_query data f so = Inr b"
    and "apply_filters data f = Inr filtered"
    and "so_field so = Some k"
  shows "mset (b_data b) = mset filtered \<and>
    filter (\<lambda>r. engine_sort_key k (is_reverse (so_direction so)) r = key) (b_data b)
      = filter (\<lambda>r. engine_sort_key k (is_reverse (so_direction so)) r = key) filtered"
proof -
  from execute_query_stages[OF assms(1)] assms(2)
  have st: "apply_sort so filtered = Inr (b_data b)"
    by auto
  show ?thesis
    using apply_sort_mset[OF st] apply_sort_stable[OF st assms(3)] by simp
qed

theorem engine_sort_stable_witness:
  "\<exists>b. execute_query
          [purchase ''a'' 30 ''2024-01-05'', purchase ''b'' 50 ''2024-02-10'',
           purchase ''c'' 30 ''2024-02-15'']
          no_filters (by_amount ''desc'') = Inr b \<and>
       apply_filters
          [purchase ''a'' 30 ''2024-01-05'', purchase ''b'' 50 ''2024-02-10'',
           purchase ''c'' 30 ''2024-02-15''] no_filters
         = Inr [purchase ''a'' 30 ''2024-01-05'', purchase ''b'' 50 ''2024-02-10'',
           purchase ''c'' 30 ''2024-02-15''] \<and>
       so_field (by_amount ''desc'') = Some ''amount'' \<and>
       b_data b = [purchase ''b'' 50 ''2024-02-10'', purchase ''a'' 30 ''2024-01-05'',
           purchase ''c'' 30 ''2024-02-15''] \<and>
       filter (\<lambda>r. engine_sort_key ''amount'' (is_reverse (so_direction (by_amount ''desc''))) r
                  = Inr (PNum 30)) (b_data b)
         = filter (\<lambda>r. engine_sort_key ''amount'' (is_reverse (so_direction (by_amount ''desc''))) r
                  = Inr (PNum 30))
             [purchase ''a'' 30 ''2024-01-05'', purchase ''b'' 50 ''2024-02-10'',
              purchase ''c'' 30 ''2024-02-15'']"
proof -
  let ?d = "[purchase ''a'' 30 ''2024-01-05'', purchase ''b'' 50 ''2024-02-10'',
           purchase ''c'' 30 ''2024-02-15'']"
  let ?q = "execute_query ?d no_filters (by_amount ''desc'')"
  have ev: "map_sum (\<lambda>e. e) b_data ?q
      = Inr [purchase ''b'' 50 ''2024-02-10'', purchase ''a'' 30 ''2024-01-05'',
           purchase ''c'' 30 ''2024-02-15'']"
    by code_simp
  then obtain b where b: "?q = Inr b"
    and d: "b_data b = [purchase ''b'' 50 ''2024-02-10'', purchase ''a'' 30 ''2024-01-05'',
           purchase ''c'' 30 ''2024-02-15'']"
    by (cases ?q) auto
  have fl: "apply_filters ?d no_filters = Inr ?d"
    by code_simp
  have fd: "so_field (by_amount ''desc'') = Some ''amount''"
    by (simp add: by_amount_def)
  note t = engine_sort_stable [OF b fl fd, of "Inr (PNum 30)", THEN conjunct2]
  show ?thesis
    using b fl fd d t by blast
qed

lemma rank_positive_below_inf: "rank (PNum p) < rank PosInf"
  by (simp add: less_prod_def)

lemma get_amount: "get item ''amount'' = (case amount item of Absent \<Rightarrow> PNone | Null \<Rightarrow> PNone | Val x \<Rightarrow> PNum x)"
  by (cases "amount item") (simp_all add: get_def lookup_def)

lemma amount_key_zero:
  "amount item = Val 0 \<Longrightarrow> engine_sort_key ''amount'' False item = Inr PosInf"
  by (simp add: engine_sort_key_def get_amount py_or_def)

lemma amount_key_positive:
  "amount item = Val p \<Longrightarrow> 0 < p \<Longrightarrow> engine_sort_key ''amount'' False item = Inr (PNum p)"
  by (simp add: engine_sort_key_def get_amount py_or_def)

lemma falsy_key:
  assumes "get item k = PNum 0 \<or> get item k = PStr []"
  shows "engine_sort_key k reverse item = Inr (if reverse then NegInf else PosInf)"
  using assms by (auto simp: engine_sort_key_def py_or_def)

lemma missing_key:
  assumes "lookup item k = None"
  shows "engine_sort_key k reverse item = Inr (if reverse then NegInf else PosInf)"
  using assms by (auto simp: engine_sort_key_def py_or_def get_def)

text \<open>
  Claim C10. In the engine's sort a record whose value for the sort field is the number
  0 or the empty string gets the key of a record that lacks the field, the infinity of the
  direction. Hence, whenever \<open>execute_query\<close> returns a bundle for an ascending sort by
  amount, every record with amount 0 stands after every record with a positive amount.
\<close>

theorem falsy_sort_key_is_missing_key:
  assumes "execute_query data f so = Inr b"
    and "so_field so = Some ''amount''"
    and "\<not> is_reverse (so_direction so)"
  shows "(\<forall>k reverse item item'.
            (get item k = PNum 0 \<or> get item k = PStr []) \<and> lookup item' k = None \<longrightarrow>
              engine_sort_key k reverse item = Inr (if reverse then NegInf else PosInf) \<and>
              engine_sort_key k reverse item = engine_sort_key k reverse item') \<and>
         (\<forall>i j p. i < length (b_data b) \<and> j < length (b_data b) \<and>
              amount (b_data b ! i) = Val 0 \<and> amount (b_data b ! j) = Val p \<and> 0 < p
            \<longrightarrow> j < i)"
proof (intro conjI allI impI)
  fix k reverse item item'
  assume h: "(get item k = PNum 0 \<or> get item k = PStr []) \<and> lookup item' k = None"
  show "engine_sort_key k reverse item = Inr (if reverse then NegInf else PosInf)"
    using h falsy_key by blast
  show "engine_sort_key k reverse item = engine_sort_key k reverse item'"
    using h falsy_key[of item k reverse] missing_key[of item' k reverse] by simp
next
  fix i j p
  assume h: "i < length (b_data b) \<and> j < length (b_data b) \<and>
              amount (b_data b ! i) = Val 0 \<and> amount (b_data b ! j) = Val p \<and> 0 < p"
  let ?F = "\<lambda>x. rank (key_val (engine_sort_key ''amount'' False x))"
  from execute_query_stages[OF assms(1)] obtain filtered where
    st: "apply_sort so filtered = Inr (b_data b)"
    by blast
  have "py_sorted (engine_sort_key ''amount'' False) False filtered = Inr (b_data b)"
    using st assms(2,3) by (simp add: apply_sort_def)
  then have "b_data b = sort_key ?F filtered"
    using py_sorted_result by (fastforce simp: sorted_total_def)
  then have srt: "sorted (map ?F (b_data b))"
    by simp
  have ki: "?F (b_data b ! i) = rank PosInf"
    using h by (simp add: amount_key_zero)
  have kj: "?F (b_data b ! j) = rank (PNum p)"
    using h by (simp add: amount_key_positive)
  show "j < i"
  proof (rule ccontr)
    assume "\<not> j < i"
    then have "i \<le> j"
      by simp
    then have "map ?F (b_data b) ! i \<le> map ?F (b_data b) ! j"
      using h srt by (intro sorted_nth_mono) auto
    then have "rank PosInf \<le> rank (PNum p)"
      using h ki kj by simp
    then show False
      using rank_positive_below_inf[of p] by simp
  qed
qed

theorem falsy_sort_key_is_missing_key_witness:
  "\<exists>b. execute_query
          [purchase ''a'' 0 ''2024-01-05'', purchase ''b'' 50 ''2024-02-10'',
           purchase ''c'' 30 ''2024-02-15'']
          no_filters (by_amount ''asc'') = Inr b \<and>
       so_field (by_amount ''asc'') = Some ''amount'' \<and>
       \<not> is_reverse (so_direction (by_amount ''asc'')) \<and>
       b_data b = [purchase ''c'' 30 ''2024-02-15'', purchase ''b'' 50 ''2024-02-10'',
           purchase ''a'' 0 ''2024-01-05''] \<and>
       get (purchase ''a'' 0 ''2024-01-05'') ''amount'' = PNum 0 \<and>
       lookup (null_receipt\<lparr>amount := Absent\<rparr>) ''amount'' = None \<and>
       engine_sort_key ''amount'' False (purchase ''a'' 0 ''2024-01-05'') = Inr PosInf \<and>
       engine_sort_key ''amount'' False (purchase ''a'' 0 ''2024-01-05'')
         = engine_sort_key ''amount'' False (null_receipt\<lparr>amount := Absent\<rparr>) \<and>
       2 < length (b_data b) \<and> 0 < length (b_data b) \<and>
       amount (b_data b ! 2) = Val 0 \<and> amount (b_data b ! 0) = Val 30 \<and> (0::nat) < 2"
proof -
  let ?d = "[purchase ''a'' 0 ''2024-01-05'', purchase ''b'' 50 ''2024-02-10'',
           purchase ''c'' 30 ''2024-02-15'']"
  let ?q = "execute_query ?d no_filters (by_amount ''asc'')"
  have ev: "map_sum (\<lambda>e. e) b_data ?q
      = Inr [purchase ''c'' 30 ''2024-02-15'', purchase ''b'' 50 ''2024-02-10'',
           purchase ''a'' 0 ''2024-01-05'']"
    by code_simp
  then obtain b where b: "?q = Inr b"
    and d: "b_data b = [purchase ''c'' 30 ''2024-02-15'', purchase ''b'' 50 ''2024-02-10'',
           purchase ''a'' 0 ''2024-01-05'']"
    by (cases ?q) auto
  have fd: "so_field (by_amount ''asc'') = Some ''amount''"
    by (simp add: by_amount_def)
  have dir: "\<not> is_reverse (so_direction (by_amount ''asc''))"
    by (simp add: by_amount_def)
  have g: "get (purchase ''a'' 0 ''2024-01-05'') ''amount'' = PNum 0"
    by code_simp
  have l: "lookup (null_receipt\<lparr>amount := Absent\<rparr>) ''amount'' = None"
    by code_simp
  note t = falsy_sort_key_is_missing_key [OF b fd dir]
  have prem: "(get (purchase ''a'' 0 ''2024-01-05'') ''amount'' = PNum 0 \<or>
      get (purchase ''a'' 0 ''2024-01-05'') ''amount'' = PStr []) \<and>
      lookup (null_receipt\<lparr>amount := Absent\<rparr>) ''amount'' = None"
    using g l by simp
  have k: "engine_sort_key ''amount'' False (purchase ''a'' 0 ''2024-01-05'') = Inr PosInf \<and>
      engine_sort_key ''amount'' False (purchase ''a'' 0 ''2024-01-05'')
         = engine_sort_key ''amount'' False (null_receipt\<lparr>amount := Absent\<rparr>)"
    by (rule t [THEN conjunct1, rule_format, of "purchase ''a'' 0 ''2024-01-05''" "''amount''"
        "null_receipt\<lparr>amount := Absent\<rparr>" False, OF prem, unfolded if_False])
  have a2: "amount (b_data b ! 2) = Val 0" and a0: "amount (b_data b ! 0) = Val 30"
    unfolding d by (simp_all add: purchase_def null_receipt_def)
  have len: "2 < length (b_data b)" "0 < length (b_data b)"
    unfolding d by simp_all
  have ord: "(0::nat) < 2"
    using t [THEN conjunct2, rule_format, of 2 0 30] len a2 a0 by simp
  show ?thesis
    using b fd dir d g l k len a2 a0 ord by blast
qed

subsection \<open>A malformed bound of the date range\<close>










subsection \<open>Vendor aggregation\<close>

lemma map_of_add_to_group:
  "map_of (add_to_group ar k a gs) =
     (map_of gs)(k \<mapsto> (case map_of gs k of None \<Rightarrow> (1, a) | Some (c, t) \<Rightarrow> (c + 1, fadd ar t a)))"
  by (induction gs) (auto simp: fun_eq_iff)

lemma keys_add_to_group:
  "map fst (add_to_group ar k a gs)
     = (if k \<in> fst ` set gs then map fst gs else map fst gs @ [k])"
  by (induction gs) (fastforce simp: image_iff)+

lemma distinct_add_to_group:
  assumes "distinct (map fst gs)"
  shows "distinct (map fst (add_to_group ar k a gs))"
proof (cases "k \<in> fst ` set gs")
  case True
  then show ?thesis
    using assms by (simp only: keys_add_to_group if_True)
next
  case False
  then have "k \<notin> set (map fst gs)"
    by simp
  then have "distinct (map fst gs @ [k])"
    using assms by simp
  then show ?thesis
    using False by (simp only: keys_add_to_group if_False)
qed

lemma fold_groups_distinct:
  "distinct (map fst gs) \<Longrightarrow>
   distinct (map fst (fold (\<lambda>r. add_to_group ar (key_of r) (amt r)) rs gs))"
  by (induction rs arbitrary: gs) (simp_all add: distinct_add_to_group)

lemma fold_groups_keys:
  "set (map fst (fold (\<lambda>r. add_to_group ar (key_of r) (amt r)) rs gs))
     = fst ` set gs \<union> key_of ` set rs"
proof (induction rs arbitrary: gs)
  case Nil
  then show ?case by simp
next
  case (Cons r rs)
  have "set (map fst (add_to_group ar (key_of r) (amt r) gs)) = insert (key_of r) (fst ` set gs)"
    by (auto simp: keys_add_to_group)
  then show ?case
    using Cons.IH[of "add_to_group ar (key_of r) (amt r) gs"] by auto
qed

lemma fold_groups_lookup:
  "map_of (fold (\<lambda>r. add_to_group ar (key_of r) (amt r)) rs gs) k =
     (case map_of gs k of
        None \<Rightarrow>
          if [r \<leftarrow> rs. key_of r = k] = [] then None
          else Some (length [r \<leftarrow> rs. key_of r = k],
                     accumulated ar (map amt [r \<leftarrow> rs. key_of r = k]))
      | Some (c, t) \<Rightarrow>
          Some (c + length [r \<leftarrow> rs. key_of r = k],
                foldl (fadd ar) t (map amt [r \<leftarrow> rs. key_of r = k])))"
proof (induction rs arbitrary: gs)
  case Nil
  then show ?case
    by (simp split: option.splits)
next
  case (Cons r rs)
  show ?case
    by (simp add: Cons.IH map_of_add_to_group split: option.splits)
qed

lemma group_by_distinct: "distinct (map fst (group_by ar key_of rs))"
  by (simp add: group_by_def fold_groups_distinct)

lemma group_by_keys: "set (map fst (group_by ar key_of rs)) = key_of ` set rs"
  using fold_groups_keys[of ar key_of amount_or_zero rs "[]"] by (simp add: group_by_def)

lemma group_by_entry:
  assumes "(k, c, t) \<in> set (group_by ar key_of rs)"
  shows "c = length [r \<leftarrow> rs. key_of r = k] \<and> 0 < c \<and>
         t = accumulated ar (map amount_or_zero [r \<leftarrow> rs. key_of r = k])"
proof -
  have "map_of (group_by ar key_of rs) k = Some (c, t)"
    using assms group_by_distinct[of ar key_of rs] by simp
  then show ?thesis
    using fold_groups_lookup[of ar key_of amount_or_zero rs "[]" k]
    by (auto simp: group_by_def split: if_splits)
qed

lemma sorted_total_descending: "sorted (rev (map f (sorted_total f True xs)))"
  by (simp add: sorted_total_def rev_map)

lemma sorted_total_set: "set (sorted_total f r xs) = set xs"
  using sorted_total_mset[of f r xs] by (metis set_mset_mset)

lemma vendor_result_vendor: "map vr_vendor (map (vendor_result ar) gs) = map fst gs"
  by (induction gs) (auto simp: vendor_result_def)

lemma vendor_rows_keys:
  "mset (map vr_vendor (vendor_aggregation ar rs)) = mset (map fst (group_by ar vendor_of rs))"
proof -
  have "mset (vendor_aggregation ar rs) = mset (map (vendor_result ar) (group_by ar vendor_of rs))"
    by (simp add: vendor_aggregation_def sorted_total_mset)
  then have "image_mset vr_vendor (mset (vendor_aggregation ar rs))
      = image_mset vr_vendor (mset (map (vendor_result ar) (group_by ar vendor_of rs)))"
    by simp
  then have "mset (map vr_vendor (vendor_aggregation ar rs))
      = mset (map vr_vendor (map (vendor_result ar) (group_by ar vendor_of rs)))"
    by (simp only: mset_map)
  then show ?thesis
    by (simp only: vendor_result_vendor)
qed

lemma vendor_of_cases:
  "vendor_of r = (case vendor r of Absent \<Rightarrow> PStr ''Unknown'' | Null \<Rightarrow> PNone | Val s \<Rightarrow> PStr s)"
  by (cases "vendor r") (simp_all add: vendor_of_def get_default_def lookup_def)

text \<open>
  Claim C9, as amended. For every record list, and whatever float arithmetic rounds to,
  \<open>vendor_aggregation\<close> produces exactly one row per distinct vendor value, where a record
  without a \<^verbatim>\<open>vendor\<close> key counts under the literal \<^verbatim>\<open>Unknown\<close> and a record with a vendor
  text under that text. Each row carries the number of records of its vendor; its total is
  the float sum of their amounts, rounded to two decimals; its average is that sum, not
  yet rounded, divided by the count and then rounded to two decimals. The rows are ordered
  by descending total.
\<close>

theorem vendor_aggregation_rows:
  "distinct (map vr_vendor (vendor_aggregation ar receipts)) \<and>
   set (map vr_vendor (vendor_aggregation ar receipts)) = vendor_of ` set receipts \<and>
   (\<forall>r \<in> set receipts.
      (vendor r = Absent \<longrightarrow> vendor_of r = PStr ''Unknown'') \<and>
      (\<forall>s. vendor r = Val s \<longrightarrow> vendor_of r = PStr s)) \<and>
   (\<forall>row \<in> set (vendor_aggregation ar receipts).
      vr_count row = length [r \<leftarrow> receipts. vendor_of r = vr_vendor row] \<and>
      0 < vr_count row \<and>
      vr_total row
        = fround2 ar
            (accumulated ar (map amount_or_zero [r \<leftarrow> receipts. vendor_of r = vr_vendor row])) \<and>
      vr_average row
        = fround2 ar
            (fdiv ar
               (accumulated ar (map amount_or_zero [r \<leftarrow> receipts. vendor_of r = vr_vendor row]))
               (of_nat (vr_count row)))) \<and>
   sorted (rev (map vr_total (vendor_aggregation ar receipts)))"
proof (intro conjI ballI)
  show "distinct (map vr_vendor (vendor_aggregation ar receipts))"
    using vendor_rows_keys[of ar receipts] group_by_distinct[of ar vendor_of receipts]
    by (metis mset_eq_imp_distinct_iff)
  show "set (map vr_vendor (vendor_aggregation ar receipts)) = vendor_of ` set receipts"
    using vendor_rows_keys[of ar receipts] group_by_keys[of ar vendor_of receipts]
    by (metis set_mset_mset)
  show "sorted (rev (map vr_total (vendor_aggregation ar receipts)))"
    unfolding vendor_aggregation_def by (rule sorted_total_descending)
next
  fix r
  show "vendor r = Absent \<longrightarrow> vendor_of r = PStr ''Unknown''"
    by (simp add: vendor_of_cases)
  show "\<forall>s. vendor r = Val s \<longrightarrow> vendor_of r = PStr s"
    by (simp add: vendor_of_cases)
next
  fix row
  assume "row \<in> set (vendor_aggregation ar receipts)"
  then have "row \<in> vendor_result ar ` set (group_by ar vendor_of receipts)"
    by (simp add: vendor_aggregation_def sorted_total_set)
  then obtain k c t where g: "(k, c, t) \<in> set (group_by ar vendor_of receipts)"
    and row: "row = vendor_result ar (k, c, t)"
    by auto
  have kk: "vr_vendor row = k" and cc: "vr_count row = c"
    and tt: "vr_total row = fround2 ar t"
    by (simp_all add: row vendor_result_def)
  have e: "c = length [r \<leftarrow> receipts. vendor_of r = k] \<and> 0 < c \<and>
         t = accumulated ar (map amount_or_zero [r \<leftarrow> receipts. vendor_of r = k])"
    by (rule group_by_entry[OF g])
  then have c: "c = length [r \<leftarrow> receipts. vendor_of r = k]" and pos: "0 < c"
    and t: "t = accumulated ar (map amount_or_zero [r \<leftarrow> receipts. vendor_of r = k])"
    by blast+
  have aa: "vr_average row = fround2 ar (fdiv ar t (of_nat c))"
    using pos by (simp add: row vendor_result_def)
  show "vr_count row = length [r \<leftarrow> receipts. vendor_of r = vr_vendor row]"
    unfolding kk cc by (rule c)
  show "0 < vr_count row"
    unfolding cc by (rule pos)
  show "vr_total row
        = fround2 ar
            (accumulated ar (map amount_or_zero [r \<leftarrow> receipts. vendor_of r = vr_vendor row]))"
    unfolding kk tt t by (rule refl)
  show "vr_average row
        = fround2 ar
            (fdiv ar
               (accumulated ar (map amount_or_zero [r \<leftarrow> receipts. vendor_of r = vr_vendor row]))
               (of_nat (vr_count row)))"
    unfolding kk cc aa t by (rule refl)
qed

theorem vendor_aggregation_rows_witness:
  "vendor_aggregation exact_arith
       [purchase ''Costco'' 50 ''2024-01-05'', purchase ''Costco'' 30 ''2024-02-10'',
        purchase ''Shell'' 20 ''2024-02-15'', null_receipt\<lparr>vendor := Absent, amount := Val 10\<rparr>]
     = [\<lparr>vr_vendor = PStr ''Costco'', vr_count = 2, vr_total = 80, vr_average = 40\<rparr>,
        \<lparr>vr_vendor = PStr ''Shell'', vr_count = 1, vr_total = 20, vr_average = 20\<rparr>,
        \<lparr>vr_vendor = PStr ''Unknown'', vr_count = 1, vr_total = 10, vr_average = 10\<rparr>] \<and>
   distinct [PStr ''Costco'', PStr ''Shell'', PStr ''Unknown''] \<and>
   vendor (null_receipt\<lparr>vendor := Absent, amount := Val 10\<rparr>) = Absent \<and>
   vendor_of (null_receipt\<lparr>vendor := Absent, amount := Val 10\<rparr>) = PStr ''Unknown'' \<and>
   sorted (rev [80, 20, 10 :: rat])"
proof -
  let ?d = "[purchase ''Costco'' 50 ''2024-01-05'', purchase ''Costco'' 30 ''2024-02-10'',
        purchase ''Shell'' 20 ''2024-02-15'', null_receipt\<lparr>vendor := Absent, amount := Val 10\<rparr>]"
  let ?u = "null_receipt\<lparr>vendor := Absent, amount := Val 10\<rparr>"
  have ev: "vendor_aggregation exact_arith ?d
     = [\<lparr>vr_vendor = PStr ''Costco'', vr_count = 2, vr_total = 80, vr_average = 40\<rparr>,
        \<lparr>vr_vendor = PStr ''Shell'', vr_count = 1, vr_total = 20, vr_average = 20\<rparr>,
        \<lparr>vr_vendor = PStr ''Unknown'', vr_count = 1, vr_total = 10, vr_average = 10\<rparr>]"
    by code_simp
  note t = vendor_aggregation_rows [of exact_arith ?d]
  have d: "distinct [PStr ''Costco'', PStr ''Shell'', PStr ''Unknown'']"
    using t [THEN conjunct1] unfolding ev by simp
  have a: "vendor ?u = Absent"
    by simp
  have mem: "?u \<in> set ?d"
    by simp
  have u: "vendor_of ?u = PStr ''Unknown''"
    using t [THEN conjunct2, THEN conjunct2, THEN conjunct1, rule_format, OF mem, THEN conjunct1] a
    by blast
  have s: "sorted (rev [80, 20, 10 :: rat])"
    using t [THEN conjunct2, THEN conjunct2, THEN conjunct2, THEN conjunct2] unfolding ev by simp
  show ?thesis
    using ev d a u s by (intro conjI)
qed

text \<open>
  The claim as stated has each row's average equal to its total divided by its count. Two
  records of one vendor with the amounts 0.125 and 0.125 (float arithmetic is exact on
  them) give the total 0.25 and the average 0.12, which is not 0.25 / 2: the average is
  rounded to two decimals.
\<close>

theorem vendor_average_is_rounded:
  "vendor_aggregation exact_arith
       [purchase ''Costco'' (1 / 8) ''2024-01-05'', purchase ''Costco'' (1 / 8) ''2024-02-10'']
     = [\<lparr>vr_vendor = PStr ''Costco'', vr_count = 2, vr_total = 1 / 4, vr_average = 12 / 100\<rparr>] \<and>
   (12 / 100 :: rat) \<noteq> (1 / 4) / of_nat 2"
proof -
  have a: "vendor_aggregation exact_arith
       [purchase ''Costco'' (1 / 8) ''2024-01-05'', purchase ''Costco'' (1 / 8) ''2024-02-10'']
     = [\<lparr>vr_vendor = PStr ''Costco'', vr_count = 2, vr_total = 1 / 4, vr_average = 12 / 100\<rparr>]"
    by code_simp
  have b: "(12 / 100 :: rat) \<noteq> (1 / 4) / of_nat 2"
    by simp
  show ?thesis
    using a b by (intro conjI)
qed

text \<open>
  A record whose vendor is \<^verbatim>\<open>None\<close>, which is how the transport layer passes a receipt
  without a vendor, gets a row with the vendor \<^verbatim>\<open>None\<close>; only a record that has no
  \<^verbatim>\<open>vendor\<close> key is counted under the literal \<^verbatim>\<open>Unknown\<close>.
\<close>

lemma vendor_none_is_not_unknown:
  "vendor_aggregation exact_arith [null_receipt\<lparr>amount := Val 10\<rparr>]
     = [\<lparr>vr_vendor = PNone, vr_count = 1, vr_total = 10, vr_average = 10\<rparr>]"
  by code_simp

end
